theory Spec2Isabelle
  imports Complex_Main "HOL-Library.Sublist"
begin

section \<open>JavaScript values used by the feed and cover code\<close>

text \<open>
  Strings are lists of code units; a \<^typ>\<open>char\<close> stands for a code unit in the range
  U+0000..U+00FF. Numbers are the rationals (every finite double is one) together with
  the three non-finite values; rounding of the floating-point operations is not modelled,
  the operations used below (subtraction of time stamps, multiplication by 86400000,
  division by 1024) are taken exactly.
\<close>

datatype jsnum = Fin rat | NaN | PosInf | NegInf

text \<open>\<^verbatim>\<open>Number.isFinite\<close>.\<close>

fun isFinite :: "jsnum \<Rightarrow> bool" where
  "isFinite (Fin _) = True"
| "isFinite _ = False"

text \<open>The relational operators \<^verbatim>\<open><\<close> and \<^verbatim>\<open><=\<close>: false as soon as one side is NaN.\<close>

fun js_lt :: "jsnum \<Rightarrow> jsnum \<Rightarrow> bool" where
  "js_lt NaN _ = False"
| "js_lt _ NaN = False"
| "js_lt (Fin a) (Fin b) = (a < b)"
| "js_lt (Fin _) PosInf = True"
| "js_lt (Fin _) NegInf = False"
| "js_lt PosInf _ = False"
| "js_lt NegInf NegInf = False"
| "js_lt NegInf _ = True"

fun js_le :: "jsnum \<Rightarrow> jsnum \<Rightarrow> bool" where
  "js_le NaN _ = False"
| "js_le _ NaN = False"
| "js_le (Fin a) (Fin b) = (a \<le> b)"
| "js_le (Fin _) PosInf = True"
| "js_le (Fin _) NegInf = False"
| "js_le PosInf PosInf = True"
| "js_le PosInf _ = False"
| "js_le NegInf _ = True"

text \<open>Multiplication by a positive finite constant, as in \<^verbatim>\<open>ttlDays * 24 * 60 * 60 * 1000\<close>.\<close>

fun js_times_pos :: "jsnum \<Rightarrow> rat \<Rightarrow> jsnum" where
  "js_times_pos (Fin a) k = Fin (a * k)"
| "js_times_pos NaN _ = NaN"
| "js_times_pos PosInf _ = PosInf"
| "js_times_pos NegInf _ = NegInf"

subsection \<open>Characters that need a code\<close>

definition dquote :: char where
  "dquote = CHR 0x22"

definition squote :: char where
  "squote = CHR 0x27"

subsection \<open>String methods\<close>

text \<open>\<^verbatim>\<open>s.replace(/c/g, rep)\<close> for a one-character pattern: every occurrence is replaced.\<close>

definition replaceChar :: "char \<Rightarrow> string \<Rightarrow> string \<Rightarrow> string" where
  "replaceChar c rep s = concat (map (\<lambda>d. if d = c then rep else [d]) s)"

text \<open>
  \<^verbatim>\<open>s.replace(pat, rep)\<close> with a string pattern: only the first occurrence, scanning from
  the left, is replaced.
\<close>

fun replaceFirst :: "string \<Rightarrow> string \<Rightarrow> string \<Rightarrow> string" where
  "replaceFirst pat rep [] = (if pat = [] then rep else [])"
| "replaceFirst pat rep (c # cs) =
     (if prefix pat (c # cs) then rep @ drop (length pat) (c # cs)
      else c # replaceFirst pat rep cs)"

text \<open>
  \<^verbatim>\<open>s.replaceAll(pat, rep)\<close> with a non-empty string pattern: matches are found from the
  left and do not overlap; the replacement text is not scanned again.
\<close>

function replaceAll :: "string \<Rightarrow> string \<Rightarrow> string \<Rightarrow> string" where
  "replaceAll pat rep [] = []"
| "replaceAll pat rep (c # cs) =
     (if pat \<noteq> [] \<and> prefix pat (c # cs)
      then rep @ replaceAll pat rep (drop (length pat) (c # cs))
      else c # replaceAll pat rep cs)"
  by pat_completeness auto
termination
  by (relation "measure (\<lambda>(pat, rep, s). length s)") (auto simp: neq_Nil_conv)

text \<open>White space of \<^verbatim>\<open>String.prototype.trim\<close> within U+0000..U+00FF.\<close>

definition isWhite :: "char \<Rightarrow> bool" where
  "isWhite c = (c \<in> set [CHR 0x09, CHR 0x0A, CHR 0x0B, CHR 0x0C, CHR 0x0D, CHR 0x20, CHR 0xA0])"

definition trim :: "string \<Rightarrow> string" where
  "trim s = rev (dropWhile isWhite (rev (dropWhile isWhite s)))"

text \<open>\<^verbatim>\<open>toLowerCase\<close> within U+0000..U+00FF: A-Z, and U+00C0..U+00DE without U+00D7.\<close>

definition lowerChar :: "char \<Rightarrow> char" where
  "lowerChar c =
     (let n = (of_char c :: nat)
      in if (65 \<le> n \<and> n \<le> 90) \<or> (192 \<le> n \<and> n \<le> 222 \<and> n \<noteq> 215)
         then char_of (n + 32) else c)"

definition toLowerCase :: "string \<Rightarrow> string" where
  "toLowerCase s = map lowerChar s"

text \<open>\<^verbatim>\<open>s.endsWith(t)\<close>.\<close>

definition endsWith :: "string \<Rightarrow> string \<Rightarrow> bool" where
  "endsWith s t = suffix t s"

text \<open>\<^verbatim>\<open>xs.join(sep)\<close>.\<close>

fun join :: "string \<Rightarrow> string list \<Rightarrow> string" where
  "join sep [] = []"
| "join sep [x] = x"
| "join sep (x # y # ys) = x @ sep @ join sep (y # ys)"

subsection \<open>Numbers to text\<close>

definition digitChar :: "nat \<Rightarrow> char" where
  "digitChar d = ''0123456789'' ! (d mod 10)"

function natToDigits :: "nat \<Rightarrow> string" where
  "natToDigits n = (if n < 10 then [digitChar n] else natToDigits (n div 10) @ [digitChar (n mod 10)])"
  by pat_completeness auto
termination
  by (relation "measure id") auto

declare natToDigits.simps [simp del]

text \<open>
  \<^verbatim>\<open>x.toFixed(f)\<close> for a finite \<open>x\<close>, after ECMA-262: the sign is split off; at or above
  \<open>10^21\<close> the general number-to-string conversion is used, which is a parameter here
  (\<open>numstr\<close>); below, \<open>n\<close> is the integer closest to \<open>x * 10^f\<close>, the larger one on a tie,
  written in decimal, padded with zeros to \<open>f + 1\<close> digits, with the point before the
  last \<open>f\<close> digits.
\<close>

definition toFixed :: "(rat \<Rightarrow> string) \<Rightarrow> rat \<Rightarrow> nat \<Rightarrow> string" where
  "toFixed numstr x f =
     (let s = (if x < 0 then ''-'' else '''');
          a = \<bar>x\<bar>;
          m = (if 10 ^ 21 \<le> a then numstr a
               else let n = nat \<lfloor>a * 10 ^ f + 1 / 2\<rfloor>;
                        ds = natToDigits n
                    in if f = 0 then ds
                       else let z = replicate (f + 1 - length ds) (CHR ''0'') @ ds;
                                k = length z - f
                            in take k z @ ''.'' @ drop k z)
      in s @ m)"

section \<open>feed.ts: text helpers\<close>

text \<open>\<^verbatim>\<open>escapeHtml\<close>: five global replacements, the ampersand first.\<close>

definition escapeHtml :: "string \<Rightarrow> string" where
  "escapeHtml input =
     replaceChar squote ''&#39;''
       (replaceChar dquote ''&quot;''
         (replaceChar (CHR ''>'') ''&gt;''
           (replaceChar (CHR ''<'') ''&lt;''
             (replaceChar (CHR ''&'') ''&amp;'' input))))"

text \<open>
  The inverse direction the round-trip property speaks of: the four entities
  \<^verbatim>\<open>&lt; &gt; &quot; &#39;\<close> are replaced back first, \<^verbatim>\<open>&amp;\<close> last. This function is not
  part of the repository; it states the property.
\<close>

definition unescapeHtml :: "string \<Rightarrow> string" where
  "unescapeHtml t =
     replaceAll ''&amp;'' ''&''
       (replaceAll ''&#39;'' [squote]
         (replaceAll ''&quot;'' [dquote]
           (replaceAll ''&gt;'' ''>''
             (replaceAll ''&lt;'' ''<'' t))))"

text \<open>The \<^verbatim>\<open>while\<close> loop of \<^verbatim>\<open>formatBytes\<close>; \<^verbatim>\<open>units.length - 1\<close> is 4.\<close>

definition units :: "string list" where
  "units = [''B'', ''KB'', ''MB'', ''GB'', ''TB'']"

function scaleLoop :: "rat \<Rightarrow> nat \<Rightarrow> rat \<times> nat" where
  "scaleLoop n i = (if 1024 \<le> n \<and> i < length units - 1 then scaleLoop (n / 1024) (i + 1) else (n, i))"
  by pat_completeness auto
termination
  by (relation "measure (\<lambda>(n, i). length units - 1 - i)") auto

declare scaleLoop.simps [simp del]

definition fixedDigits :: "nat \<Rightarrow> rat \<Rightarrow> nat" where
  "fixedDigits i n = (if i = 0 then 0 else if 10 \<le> n then 1 else 2)"

definition formatBytes :: "(rat \<Rightarrow> string) \<Rightarrow> jsnum \<Rightarrow> string" where
  "formatBytes numstr bytes =
     (case bytes of
        Fin b \<Rightarrow>
          if b \<le> 0 then ''0 B''
          else let (n, i) = scaleLoop b 0
               in toFixed numstr n (fixedDigits i n) @ '' '' @ units ! i
      | _ \<Rightarrow> ''0 B'')"

section \<open>Values read from the network\<close>

text \<open>
  What \<^verbatim>\<open>res.json()\<close> yields is typed \<^verbatim>\<open>any\<close> in the source, so the model keeps the
  dynamic value. \<open>JUndefined\<close> is the result of reading a property that is absent.
  An object is the list of its own properties; the first entry for a key is its value.
\<close>

datatype jsval =
    JUndefined
  | JNull
  | JBool bool
  | JNum rat
  | JStr string
  | JArr "jsval list"
  | JObj "(string \<times> jsval) list"

text \<open>ToBoolean, as used by \<^verbatim>\<open>||\<close>, \<^verbatim>\<open>!\<close> and \<^verbatim>\<open>if\<close>.\<close>

fun truthy :: "jsval \<Rightarrow> bool" where
  "truthy JUndefined = False"
| "truthy JNull = False"
| "truthy (JBool b) = b"
| "truthy (JNum n) = (n \<noteq> 0)"
| "truthy (JStr s) = (s \<noteq> [])"
| "truthy (JArr _) = True"
| "truthy (JObj _) = True"

text \<open>\<^verbatim>\<open>a || b\<close>.\<close>

definition orElse :: "jsval \<Rightarrow> jsval \<Rightarrow> jsval" where
  "orElse a b = (if truthy a then a else b)"

text \<open>
  \<^verbatim>\<open>v?.key\<close> or \<^verbatim>\<open>v.key\<close> on a value that is not null or undefined, for the keys the
  source reads (\<^verbatim>\<open>results\<close>, \<^verbatim>\<open>artworkUrl600\<close>, \<^verbatim>\<open>artworkUrl512\<close>, \<^verbatim>\<open>artworkUrl100\<close>): none of
  them is a property of a primitive wrapper or of an array.
\<close>

fun getProp :: "jsval \<Rightarrow> string \<Rightarrow> jsval" where
  "getProp (JObj kvs) key = (case map_of kvs key of None \<Rightarrow> JUndefined | Some v \<Rightarrow> v)"
| "getProp _ key = JUndefined"

datatype response =
    Rejected
  | Response bool "string option" "jsval option"

text \<open>
  \<open>Rejected\<close>: the \<^verbatim>\<open>fetch\<close> promise rejects (network error, invalid URL, or the abort that
  the timeout triggers). \<open>Response ok bytes parsed\<close>: \<^verbatim>\<open>res.ok\<close>, the body as
  \<^verbatim>\<open>arrayBuffer()\<close> gives it and as \<^verbatim>\<open>json()\<close> gives it; \<open>None\<close> where that call rejects
  (for \<^verbatim>\<open>json()\<close>: the body is not JSON).
\<close>

section \<open>The file system, the clock and the network\<close>

record node =
  mtimeMs :: rat
  isFile :: bool
  content :: string

datatype event =
    Exists string
  | Stat string
  | Fetch string
  | Write string
  | Remove string
  | ReadFile string

datatype exn = TypeError | IOError | HttpError | FetchError

text \<open>
  The world a call runs in. \<open>files\<close> is a flat name space of paths; \<open>now\<close> is
  \<^verbatim>\<open>Date.now()\<close>, taken to be the same during one call. The four \<open>_fails\<close> fields say for
  which paths the operation throws; \<open>write_fails\<close> covers \<^verbatim>\<open>ensureDir\<close> of the directory
  together with \<^verbatim>\<open>writeFile\<close>, \<open>read_fails\<close> covers \<^verbatim>\<open>open\<close>, \<^verbatim>\<open>read\<close> and \<^verbatim>\<open>close\<close>. An
  operation that throws leaves the files unchanged. \<open>trace\<close> records the calls made, in
  order.
\<close>

record world =
  files :: "string \<rightharpoonup> node"
  now :: rat
  net :: "string \<Rightarrow> response"
  stat_fails :: "string \<Rightarrow> bool"
  write_fails :: "string \<Rightarrow> bool"
  remove_fails :: "string \<Rightarrow> bool"
  read_fails :: "string \<Rightarrow> bool"
  trace :: "event list"

text \<open>
  Library functions the repository calls and does not define: \<^verbatim>\<open>process.cwd()\<close>,
  \<^verbatim>\<open>path.join\<close>, the UTF-8 decoder of \<^verbatim>\<open>Buffer.toString\<close>, and the number-to-string
  conversion \<^verbatim>\<open>toFixed\<close> falls back to.
\<close>

record runtime =
  cwd :: string
  pathJoin :: "string \<Rightarrow> string \<Rightarrow> string"
  utf8Decode :: "string \<Rightarrow> string"
  numToString :: "rat \<Rightarrow> string"

definition logEvent :: "event \<Rightarrow> world \<Rightarrow> world" where
  "logEvent e w = w\<lparr>trace := trace w @ [e]\<rparr>"

text \<open>\<^verbatim>\<open>fs.pathExists\<close> never throws.\<close>

definition pathExists :: "string \<Rightarrow> world \<Rightarrow> bool \<times> world" where
  "pathExists p w = (files w p \<noteq> None, logEvent (Exists p) w)"

definition stat :: "string \<Rightarrow> world \<Rightarrow> (exn + node) \<times> world" where
  "stat p w =
     (if stat_fails w p then Inl IOError
      else case files w p of None \<Rightarrow> Inl IOError | Some st \<Rightarrow> Inr st,
      logEvent (Stat p) w)"

definition remove :: "string \<Rightarrow> world \<Rightarrow> (exn + unit) \<times> world" where
  "remove p w =
     (if remove_fails w p then (Inl IOError, logEvent (Remove p) w)
      else (Inr (), logEvent (Remove p) (w\<lparr>files := (files w)(p := None)\<rparr>)))"

definition writeFile :: "string \<Rightarrow> string \<Rightarrow> world \<Rightarrow> (exn + unit) \<times> world" where
  "writeFile p buf w =
     (if write_fails w p then (Inl IOError, logEvent (Write p) w)
      else (Inr (),
            logEvent (Write p)
              (w\<lparr>files := (files w)(p \<mapsto> \<lparr>mtimeMs = now w, isFile = True, content = buf\<rparr>)\<rparr>)))"

definition fetch :: "string \<Rightarrow> world \<Rightarrow> response \<times> world" where
  "fetch url w = (net w url, logEvent (Fetch url) w)"

subsection \<open>Percent-encoding\<close>

definition hexDigit :: "nat \<Rightarrow> char" where
  "hexDigit d = ''0123456789ABCDEF'' ! (d mod 16)"

definition pctByte :: "nat \<Rightarrow> string" where
  "pctByte b = [CHR ''%'', hexDigit (b div 16), hexDigit (b mod 16)]"

text \<open>The UTF-8 bytes of a code unit below U+0100, each percent-encoded.\<close>

definition utf8Pct :: "char \<Rightarrow> string" where
  "utf8Pct c =
     (let n = (of_char c :: nat)
      in if n < 128 then pctByte n else pctByte (192 + n div 64) @ pctByte (128 + n mod 64))"

definition isAlnum :: "char \<Rightarrow> bool" where
  "isAlnum c =
     (let n = (of_char c :: nat)
      in (48 \<le> n \<and> n \<le> 57) \<or> (65 \<le> n \<and> n \<le> 90) \<or> (97 \<le> n \<and> n \<le> 122))"

definition encodeURIComponent :: "string \<Rightarrow> string" where
  "encodeURIComponent s =
     concat (map (\<lambda>c. if isAlnum c \<or> c \<in> set (''-_.!~*()'' @ [squote]) then [c] else utf8Pct c) s)"

text \<open>\<^verbatim>\<open>new URLSearchParams({...}).toString()\<close>: the form-urlencoded serialiser.\<close>

definition formEncode :: "string \<Rightarrow> string" where
  "formEncode s =
     concat (map (\<lambda>c. if c = CHR '' '' then ''+''
                       else if isAlnum c \<or> c \<in> set ''*-._'' then [c] else utf8Pct c) s)"

definition urlSearchParams :: "(string \<times> string) list \<Rightarrow> string" where
  "urlSearchParams kvs = join ''&'' (map (\<lambda>(k, v). formEncode k @ ''='' @ formEncode v) kvs)"

section \<open>Configuration and sources\<close>

text \<open>
  The fields of \<^verbatim>\<open>EnvConfig\<close> the two modules read. The string-valued settings are casts
  of environment variables and can hold any string; the numbers come from \<^verbatim>\<open>parseInt\<close>
  and can be NaN.
\<close>

record envConfig =
  EPISODE_SHOWNOTES :: string
  EPISODE_INLINE_ATTACHMENTS :: string
  EPISODE_INLINE_TEXT_MAX_CHARS :: jsnum
  REMOTE_COVER_ENABLED :: bool
  REMOTE_COVER_PROVIDER :: string
  REMOTE_COVER_COUNTRY :: string
  REMOTE_COVER_TTL_DAYS :: jsnum
  REMOTE_COVER_TIMEOUT_MS :: jsnum

text \<open>
  \<^verbatim>\<open>PodcastSource\<close> and its parts are declared in \<^verbatim>\<open>../types\<close>; the fields are those the
  two modules read. A date is given by what \<^verbatim>\<open>toISOString()\<close> returns for it, \<open>None\<close> for
  an invalid date, where that method throws.
\<close>

record podcastConfig =
  title :: string
  coverImageUrl :: "string option"
  coverSearchTerm :: "string option"

record episode =
  epTitle :: string
  fileName :: string
  filePath :: string
  pubDate :: "string option"

record podcastSource =
  dirName :: string
  dirPath :: string
  config :: podcastConfig
  episodes :: "episode list"

record cover =
  coverUrl :: "string option"
  coverCachePath :: "string option"

definition emptyCover :: cover where
  "emptyCover = \<lparr>coverUrl = None, coverCachePath = None\<rparr>"

text \<open>\<^verbatim>\<open>x || ''\<close> for an optional string.\<close>

definition orEmpty :: "string option \<Rightarrow> string" where
  "orEmpty x = (case x of None \<Rightarrow> [] | Some s \<Rightarrow> s)"

section \<open>The cover resolver\<close>

definition coversDir :: "runtime \<Rightarrow> string" where
  "coversDir rt = pathJoin rt (cwd rt) ''.covers''"

definition guessExtFromUrl :: "string \<Rightarrow> string" where
  "guessExtFromUrl url =
     (let lower = takeWhile (\<lambda>c. c \<noteq> CHR ''?'') (toLowerCase url)
      in if endsWith lower ''.png'' then ''.png''
         else if endsWith lower ''.webp'' then ''.webp''
         else if endsWith lower ''.jpeg'' then ''.jpg''
         else if endsWith lower ''.jpg'' then ''.jpg''
         else ''.jpg'')"

definition msPerDay :: rat where
  "msPerDay = 24 * 60 * 60 * 1000"

definition freshAge :: "rat \<Rightarrow> jsnum \<Rightarrow> bool" where
  "freshAge ageMs ttlDays = (0 \<le> ageMs \<and> js_lt (Fin ageMs) (js_times_pos ttlDays msPerDay))"

definition isFresh :: "string \<Rightarrow> jsnum \<Rightarrow> world \<Rightarrow> bool \<times> world" where
  "isFresh fpath ttlDays w =
     (case stat fpath w of
        (Inl _, w1) \<Rightarrow> (False, w1)
      | (Inr st, w1) \<Rightarrow> (freshAge (now w1 - mtimeMs st) ttlDays, w1))"

definition coverExts :: "string list" where
  "coverExts = [''.jpg'', ''.png'', ''.webp'']"

fun cleanupLoop :: "string \<Rightarrow> string \<Rightarrow> string list \<Rightarrow> world \<Rightarrow> (exn + unit) \<times> world" where
  "cleanupLoop basePathNoExt keepExt [] w = (Inr (), w)"
| "cleanupLoop basePathNoExt keepExt (ext # exts) w =
     (if ext = keepExt then cleanupLoop basePathNoExt keepExt exts w
      else let p = basePathNoExt @ ext
           in case pathExists p w of
                (True, w1) \<Rightarrow>
                  (case remove p w1 of
                     (Inl e, w2) \<Rightarrow> (Inl e, w2)
                   | (Inr _, w2) \<Rightarrow> cleanupLoop basePathNoExt keepExt exts w2)
              | (False, w1) \<Rightarrow> cleanupLoop basePathNoExt keepExt exts w1)"

definition cleanupOldVariants :: "string \<Rightarrow> string \<Rightarrow> world \<Rightarrow> (exn + unit) \<times> world" where
  "cleanupOldVariants basePathNoExt keepExt w = cleanupLoop basePathNoExt keepExt coverExts w"

definition downloadToFile :: "string \<Rightarrow> string \<Rightarrow> jsnum \<Rightarrow> world \<Rightarrow> (exn + unit) \<times> world" where
  "downloadToFile url fpath timeoutMs w =
     (case fetch url w of
        (Rejected, w1) \<Rightarrow> (Inl FetchError, w1)
      | (Response ok bytes parsed, w1) \<Rightarrow>
          if \<not> ok then (Inl HttpError, w1)
          else (case bytes of
                  None \<Rightarrow> (Inl FetchError, w1)
                | Some buf \<Rightarrow> writeFile fpath buf w1))"

definition itunesSearchUrl :: "string \<Rightarrow> string \<Rightarrow> string" where
  "itunesSearchUrl term country =
     ''https://itunes.apple.com/search?'' @
     urlSearchParams [(''term'', term), (''entity'', ''podcast''), (''limit'', ''3''), (''country'', country)]"

definition itunesSearchArtwork :: "string \<Rightarrow> string \<Rightarrow> jsnum \<Rightarrow> world \<Rightarrow> jsval \<times> world" where
  "itunesSearchArtwork term country timeoutMs w =
     (case fetch (itunesSearchUrl term country) w of
        (Rejected, w1) \<Rightarrow> (JNull, w1)
      | (Response ok bytes parsed, w1) \<Rightarrow>
          if \<not> ok then (JNull, w1)
          else (case parsed of
                  None \<Rightarrow> (JNull, w1)
                | Some j \<Rightarrow>
                    let r = (case getProp j ''results'' of JArr xs \<Rightarrow> xs | _ \<Rightarrow> [])
                    in (case r of
                          [] \<Rightarrow> (JNull, w1)
                        | r0 # _ \<Rightarrow>
                            let first = orElse r0 (JObj [])
                            in (orElse (getProp first ''artworkUrl600'')
                                  (orElse (getProp first ''artworkUrl512'')
                                     (orElse (getProp first ''artworkUrl100'') JNull)), w1))))"

definition toCoverRoute :: "string \<Rightarrow> string" where
  "toCoverRoute fname = ''/covers/'' @ encodeURIComponent fname"

text \<open>The loop over the three extensions at the start of \<^verbatim>\<open>resolveCoverForSource\<close>.\<close>

fun probeLoop :: "string \<Rightarrow> string \<Rightarrow> jsnum \<Rightarrow> string list \<Rightarrow> world \<Rightarrow> cover option \<times> world" where
  "probeLoop baseNoExt baseName ttlDays [] w = (None, w)"
| "probeLoop baseNoExt baseName ttlDays (ext # exts) w =
     (let p = baseNoExt @ ext
      in case pathExists p w of
           (False, w1) \<Rightarrow> probeLoop baseNoExt baseName ttlDays exts w1
         | (True, w1) \<Rightarrow>
             (case isFresh p ttlDays w1 of
                (True, w2) \<Rightarrow>
                  (Some \<lparr>coverUrl = Some (toCoverRoute (baseName @ ext)), coverCachePath = Some p\<rparr>, w2)
              | (False, w2) \<Rightarrow> probeLoop baseNoExt baseName ttlDays exts w2))"

definition baseNoExtOf :: "runtime \<Rightarrow> podcastSource \<Rightarrow> string" where
  "baseNoExtOf rt source = pathJoin rt (coversDir rt) (dirName source)"

definition cacheProbe :: "runtime \<Rightarrow> envConfig \<Rightarrow> podcastSource \<Rightarrow> world \<Rightarrow> cover option \<times> world" where
  "cacheProbe rt env source w =
     probeLoop (baseNoExtOf rt source) (dirName source) (REMOTE_COVER_TTL_DAYS env) coverExts w"

definition directUrlOf :: "podcastSource \<Rightarrow> string" where
  "directUrlOf source = trim (orEmpty (coverImageUrl (config source)))"

text \<open>\<^verbatim>\<open>(coverSearchTerm || title || dirName).trim()\<close>: the first operand that is a non-empty
  string is taken, and trimmed afterwards.\<close>

definition searchTermOf :: "podcastSource \<Rightarrow> string" where
  "searchTermOf source =
     trim (let a = orEmpty (coverSearchTerm (config source))
           in if a \<noteq> [] then a
              else if title (config source) \<noteq> [] then title (config source)
              else dirName source)"

definition pickArtwork :: "envConfig \<Rightarrow> podcastSource \<Rightarrow> world \<Rightarrow> jsval \<times> world" where
  "pickArtwork env source w =
     (let directUrl = directUrlOf source
      in if directUrl \<noteq> [] then (JStr directUrl, w)
         else let term = searchTermOf source
              in if term \<noteq> []
                 then itunesSearchArtwork term (REMOTE_COVER_COUNTRY env) (REMOTE_COVER_TIMEOUT_MS env) w
                 else (JNull, w))"

text \<open>
  Lines 117 to 128: the download, the cleanup and the result. A value that is not a string
  has no \<^verbatim>\<open>toLowerCase\<close> method, so \<^verbatim>\<open>guessExtFromUrl\<close> throws a TypeError on it; that call
  is outside the \<^verbatim>\<open>try\<close> block.
\<close>

definition storeArtwork ::
  "envConfig \<Rightarrow> string \<Rightarrow> string \<Rightarrow> jsval \<Rightarrow> world \<Rightarrow> (exn + cover) \<times> world" where
  "storeArtwork env baseNoExt baseName artworkUrl w =
     (if \<not> truthy artworkUrl then (Inr emptyCover, w)
      else case artworkUrl of
             JStr u \<Rightarrow>
               let ext = guessExtFromUrl u;
                   cachePath = baseNoExt @ ext
               in (case downloadToFile u cachePath (REMOTE_COVER_TIMEOUT_MS env) w of
                     (Inl _, w1) \<Rightarrow> (Inr emptyCover, w1)
                   | (Inr _, w1) \<Rightarrow>
                       (case cleanupOldVariants baseNoExt ext w1 of
                          (Inl _, w2) \<Rightarrow> (Inr emptyCover, w2)
                        | (Inr _, w2) \<Rightarrow>
                            (Inr \<lparr>coverUrl = Some (toCoverRoute (baseName @ ext)),
                                  coverCachePath = Some cachePath\<rparr>, w2)))
           | _ \<Rightarrow> (Inl TypeError, w))"

definition resolveCoverForSource ::
  "runtime \<Rightarrow> envConfig \<Rightarrow> podcastSource \<Rightarrow> world \<Rightarrow> (exn + cover) \<times> world" where
  "resolveCoverForSource rt env source w =
     (if \<not> REMOTE_COVER_ENABLED env \<or> REMOTE_COVER_PROVIDER env = ''none'' then (Inr emptyCover, w)
      else case cacheProbe rt env source w of
             (Some hit, w1) \<Rightarrow> (Inr hit, w1)
           | (None, w1) \<Rightarrow>
               (case pickArtwork env source w1 of
                  (artworkUrl, w2) \<Rightarrow>
                    storeArtwork env (baseNoExtOf rt source) (dirName source) artworkUrl w2))"

section \<open>Sidecar attachments\<close>

datatype kind = Image | Text | Pdf | Doc | Other

record attachment =
  attFileName :: string
  attUrl :: string
  attKind :: kind
  inlineText :: "string option"

text \<open>
  \<^verbatim>\<open>audioFileName.replace(/\.[^/.]+$/, '')\<close>: a final extension is cut off, that is a dot
  followed to the end of the name by at least one character, none of them a dot or a
  slash.
\<close>

definition stemOf :: "string \<Rightarrow> string" where
  "stemOf name =
     (let r = rev name;
          t = takeWhile (\<lambda>c. c \<noteq> CHR ''.'' \<and> c \<noteq> CHR ''/'') r
      in case dropWhile (\<lambda>c. c \<noteq> CHR ''.'' \<and> c \<noteq> CHR ''/'') r of
           [] \<Rightarrow> name
         | c # before \<Rightarrow> if c = CHR ''.'' \<and> t \<noteq> [] then rev before else name)"

definition sidecarExts :: "string list" where
  "sidecarExts =
     [''pdf'', ''doc'', ''docx'', ''epub'', ''mobi'', ''azw3'', ''txt'', ''md'',
      ''jpg'', ''jpeg'', ''png'', ''webp'']"

definition kindOf :: "string \<Rightarrow> kind" where
  "kindOf ext =
     (if ext \<in> set [''jpg'', ''jpeg'', ''png'', ''webp''] then Image
      else if ext \<in> set [''md'', ''txt''] then Text
      else if ext = ''pdf'' then Pdf
      else if ext \<in> set [''doc'', ''docx''] then Doc
      else Other)"

text \<open>
  \<^verbatim>\<open>readTextTruncated\<close>: the content of a file is its bytes, \<^verbatim>\<open>stat.size\<close> their number.
  \<open>maxChars\<close> is a positive integer where \<^verbatim>\<open>generateFeed\<close> calls.
\<close>

definition readTextTruncated :: "runtime \<Rightarrow> string \<Rightarrow> nat \<Rightarrow> world \<Rightarrow> string \<times> world" where
  "readTextTruncated rt fullPath maxChars w =
     (case stat fullPath w of
        (Inl _, w1) \<Rightarrow> ([], w1)
      | (Inr st, w1) \<Rightarrow>
          if \<not> isFile st then ([], w1)
          else let maxBytes = max 1024 (maxChars * 4);
                   w2 = logEvent (ReadFile fullPath) w1
               in if read_fails w1 fullPath then ([], w2)
                  else let buf = take (min maxBytes (length (content st))) (content st);
                           s = utf8Decode rt buf
                       in (if length s > maxChars then take maxChars s else s, w2))"

fun sidecarLoop ::
  "runtime \<Rightarrow> string \<Rightarrow> string \<Rightarrow> string \<Rightarrow> string \<Rightarrow> nat \<Rightarrow> string list \<Rightarrow> world
   \<Rightarrow> attachment list \<times> world" where
  "sidecarLoop rt dpath stem baseUrl dname maxTextChars [] w = ([], w)"
| "sidecarLoop rt dpath stem baseUrl dname maxTextChars (ext # exts) w =
     (let candidate = stem @ ''.'' @ ext;
          fullPath = pathJoin rt dpath candidate
      in case pathExists fullPath w of
           (False, w1) \<Rightarrow> sidecarLoop rt dpath stem baseUrl dname maxTextChars exts w1
         | (True, w1) \<Rightarrow>
             let url = baseUrl @ ''/audio/'' @ encodeURIComponent dname @ ''/'' @
                       encodeURIComponent candidate;
                 k = kindOf ext
             in (case (if k = Text
                       then (case readTextTruncated rt fullPath maxTextChars w1 of
                               (txt, w2) \<Rightarrow> (Some txt, w2))
                       else (None, w1)) of
                   (txtOpt, w2) \<Rightarrow>
                     (case sidecarLoop rt dpath stem baseUrl dname maxTextChars exts w2 of
                        (rest, w3) \<Rightarrow>
                          (\<lparr>attFileName = candidate, attUrl = url, attKind = k,
                            inlineText = txtOpt\<rparr> # rest, w3))))"

definition findSidecarAttachments ::
  "runtime \<Rightarrow> string \<Rightarrow> string \<Rightarrow> string \<Rightarrow> string \<Rightarrow> nat \<Rightarrow> world \<Rightarrow> attachment list \<times> world" where
  "findSidecarAttachments rt dpath audioFileName baseUrl dname maxTextChars w =
     sidecarLoop rt dpath (stemOf audioFileName) baseUrl dname maxTextChars sidecarExts w"

definition getFileSize :: "string \<Rightarrow> world \<Rightarrow> nat \<times> world" where
  "getFileSize fpath w =
     (case stat fpath w of
        (Inl _, w1) \<Rightarrow> (0, w1)
      | (Inr st, w1) \<Rightarrow> (length (content st), w1))"

section \<open>Show notes\<close>

definition formatDate :: "string option \<Rightarrow> string" where
  "formatDate date =
     (case date of
        Some isoText \<Rightarrow> replaceFirst ''Z'' '' UTC'' (replaceFirst ''T'' '' '' isoText)
      | None \<Rightarrow> ''Invalid Date'')"

record shownotes =
  plain :: string
  html :: string

definition dq :: string where
  "dq = [dquote]"

definition plainLines ::
  "runtime \<Rightarrow> podcastSource \<Rightarrow> episode \<Rightarrow> string \<Rightarrow> jsnum \<Rightarrow> attachment list \<Rightarrow> string list" where
  "plainLines rt source ep episodeUrl fileSizeBytes attachments =
     [epTitle ep,
      ''Podcast: '' @ title (config source),
      ''Published: '' @ formatDate (pubDate ep),
      ''File: '' @ fileName ep,
      ''Size: '' @ formatBytes (numToString rt) fileSizeBytes,
      ''Audio: '' @ episodeUrl] @
     (if attachments \<noteq> []
      then [''Attachments: '' @ join '', '' (map attFileName attachments)] else [])"

definition attachmentLink :: "attachment \<Rightarrow> string" where
  "attachmentLink a =
     ''<a href='' @ dq @ escapeHtml (attUrl a) @ dq @ ''>'' @ escapeHtml (attFileName a) @ ''</a>''"

definition baseParts ::
  "runtime \<Rightarrow> podcastSource \<Rightarrow> episode \<Rightarrow> string \<Rightarrow> jsnum \<Rightarrow> attachment list \<Rightarrow> string list" where
  "baseParts rt source ep episodeUrl fileSizeBytes attachments =
     [''<p><strong>'' @ escapeHtml (epTitle ep) @ ''</strong></p>'',
      ''<ul>'',
      ''<li><strong>Podcast</strong>: '' @ escapeHtml (title (config source)) @ ''</li>'',
      ''<li><strong>Published</strong>: '' @ escapeHtml (formatDate (pubDate ep)) @ ''</li>'',
      ''<li><strong>File</strong>: '' @ escapeHtml (fileName ep) @ ''</li>'',
      ''<li><strong>Size</strong>: '' @ escapeHtml (formatBytes (numToString rt) fileSizeBytes) @ ''</li>'',
      ''<li><strong>Audio</strong>: <a href='' @ dq @ escapeHtml episodeUrl @ dq @ ''>'' @
        escapeHtml episodeUrl @ ''</a></li>''] @
     (if attachments \<noteq> []
      then [''<li><strong>Attachments</strong>:<ul>''] @
           map (\<lambda>a. ''<li>'' @ attachmentLink a @ ''</li>'') attachments @
           [''</ul></li>'']
      else []) @
     [''</ul>'']"

definition imagesHeader :: string where
  "imagesHeader = ''<hr/><p><strong>Images</strong></p>''"

definition notesHeader :: string where
  "notesHeader = ''<hr/><p><strong>Notes</strong></p>''"

definition imagePart :: "attachment \<Rightarrow> string" where
  "imagePart img =
     ''<p><a href='' @ dq @ escapeHtml (attUrl img) @ dq @ ''><img src='' @ dq @
     escapeHtml (attUrl img) @ dq @ '' alt='' @ dq @ escapeHtml (attFileName img) @ dq @
     '' style='' @ dq @ ''max-width:100%;height:auto;'' @ dq @ ''/></a></p>''"

definition noteParts :: "attachment \<Rightarrow> string list" where
  "noteParts t =
     (let body = trim (orEmpty (inlineText t))
      in if body = [] then [''<p>'' @ attachmentLink t @ ''</p>'']
         else [''<p>'' @ attachmentLink t @ ''</p>'', ''<pre>'' @ escapeHtml body @ ''</pre>''])"

definition inlineParts :: "string \<Rightarrow> attachment list \<Rightarrow> string list" where
  "inlineParts inlineAttachments attachments =
     (if attachments \<noteq> [] \<and> inlineAttachments \<noteq> ''none''
      then let images = filter (\<lambda>a. attKind a = Image) attachments;
               texts = filter (\<lambda>a. attKind a = Text) attachments
           in (if images \<noteq> [] \<and> (inlineAttachments = ''images'' \<or> inlineAttachments = ''all'')
               then imagesHeader # map imagePart images else []) @
              (if texts \<noteq> [] \<and> inlineAttachments = ''all''
               then notesHeader # concat (map noteParts texts) else [])
      else [])"

definition htmlParts ::
  "runtime \<Rightarrow> podcastSource \<Rightarrow> episode \<Rightarrow> string \<Rightarrow> jsnum \<Rightarrow> string \<Rightarrow> attachment list \<Rightarrow> string list" where
  "htmlParts rt source ep episodeUrl fileSizeBytes inlineAttachments attachments =
     baseParts rt source ep episodeUrl fileSizeBytes attachments @
     inlineParts inlineAttachments attachments"

definition buildEpisodeShownotes ::
  "runtime \<Rightarrow> podcastSource \<Rightarrow> episode \<Rightarrow> string \<Rightarrow> jsnum \<Rightarrow> string \<Rightarrow> string \<Rightarrow> string \<Rightarrow> nat
   \<Rightarrow> world \<Rightarrow> shownotes \<times> world" where
  "buildEpisodeShownotes rt source ep episodeUrl fileSizeBytes baseUrl defaultMode
       inlineAttachments inlineTextMaxChars w =
     (if defaultMode = ''title''
      then (\<lparr>plain = epTitle ep, html = ''<p>'' @ escapeHtml (epTitle ep) @ ''</p>''\<rparr>, w)
      else case findSidecarAttachments rt (dirPath source) (fileName ep) baseUrl (dirName source)
                  inlineTextMaxChars w of
             (attachments, w1) \<Rightarrow>
               (\<lparr>plain = join [CHR 0x0A] (plainLines rt source ep episodeUrl fileSizeBytes attachments),
                 html = concat (htmlParts rt source ep episodeUrl fileSizeBytes inlineAttachments
                                  attachments)\<rparr>, w1))"

section \<open>Feed items\<close>

text \<open>
  Of \<^verbatim>\<open>generateFeed\<close> the model keeps what is handed to \<^verbatim>\<open>feed.addItem\<close> for each episode,
  in order; the \<^verbatim>\<open>Feed\<close> class that renders the XML is a library.
\<close>

record feedItem =
  itemTitle :: string
  itemId :: string
  itemDescription :: string
  itemContent :: string
  itemSummary :: string
  enclosureLength :: nat

text \<open>\<^verbatim>\<open>a || b\<close> on strings.\<close>

definition orString :: "string \<Rightarrow> string \<Rightarrow> string" where
  "orString a b = (if a \<noteq> [] then a else b)"

definition inlineTextMaxCharsOf :: "envConfig \<Rightarrow> nat" where
  "inlineTextMaxCharsOf env =
     (case EPISODE_INLINE_TEXT_MAX_CHARS env of
        Fin q \<Rightarrow> if 0 < q then nat \<lfloor>q\<rfloor> else 8000
      | _ \<Rightarrow> 8000)"

definition feedItem ::
  "runtime \<Rightarrow> envConfig \<Rightarrow> podcastSource \<Rightarrow> string \<Rightarrow> episode \<Rightarrow> world \<Rightarrow> feedItem \<times> world" where
  "feedItem rt env source baseUrl ep w =
     (let shownotesMode = orString (EPISODE_SHOWNOTES env) ''full'';
          inlineAttachments = orString (EPISODE_INLINE_ATTACHMENTS env) ''all'';
          episodeUrl = baseUrl @ ''/audio/'' @ encodeURIComponent (dirName source) @ ''/'' @
                       encodeURIComponent (fileName ep)
      in case getFileSize (filePath ep) w of
           (fileSize, w1) \<Rightarrow>
             (case buildEpisodeShownotes rt source ep episodeUrl (Fin (of_nat fileSize)) baseUrl
                     shownotesMode inlineAttachments (inlineTextMaxCharsOf env) w1 of
                (notes, w2) \<Rightarrow>
                  (\<lparr>itemTitle = epTitle ep,
                    itemId = episodeUrl,
                    itemDescription =
                      (if shownotesMode = ''title'' then epTitle ep
                       else epTitle ep @ '' ('' @ formatBytes (numToString rt) (Fin (of_nat fileSize)) @ '')''),
                    itemContent = orString (html notes) (''<p>'' @ escapeHtml (epTitle ep) @ ''</p>''),
                    itemSummary = orString (plain notes) (epTitle ep),
                    enclosureLength = fileSize\<rparr>, w2)))"

fun feedItems ::
  "runtime \<Rightarrow> envConfig \<Rightarrow> podcastSource \<Rightarrow> string \<Rightarrow> episode list \<Rightarrow> world \<Rightarrow> feedItem list \<times> world" where
  "feedItems rt env source baseUrl [] w = ([], w)"
| "feedItems rt env source baseUrl (ep # eps) w =
     (case feedItem rt env source baseUrl ep w of
        (item, w1) \<Rightarrow>
          (case feedItems rt env source baseUrl eps w1 of
             (rest, w2) \<Rightarrow> (item # rest, w2)))"

definition generateFeedItems ::
  "runtime \<Rightarrow> envConfig \<Rightarrow> podcastSource \<Rightarrow> string \<Rightarrow> world \<Rightarrow> feedItem list \<times> world" where
  "generateFeedItems rt env source baseUrl w = feedItems rt env source baseUrl (episodes source) w"

section \<open>Notions used to state the properties\<close>

subsection \<open>Escaping, one character at a time\<close>

definition entityOf :: "char \<Rightarrow> string" where
  "entityOf c =
     (if c = CHR ''&'' then ''&amp;''
      else if c = CHR ''<'' then ''&lt;''
      else if c = CHR ''>'' then ''&gt;''
      else if c = dquote then ''&quot;''
      else if c = squote then ''&#39;''
      else [c])"

text \<open>The intermediate stages of undoing the escape: one more entity is plain text in each.\<close>

definition entityAfterLt :: "char \<Rightarrow> string" where
  "entityAfterLt c = (if c = CHR ''<'' then [c] else entityOf c)"

definition entityAfterGt :: "char \<Rightarrow> string" where
  "entityAfterGt c = (if c = CHR ''>'' then [c] else entityAfterLt c)"

definition entityAfterQuot :: "char \<Rightarrow> string" where
  "entityAfterQuot c = (if c = dquote then [c] else entityAfterGt c)"

definition entityAfterApos :: "char \<Rightarrow> string" where
  "entityAfterApos c = (if c = squote then [c] else entityAfterQuot c)"

subsection \<open>The byte formatter as the specification words it\<close>

text \<open>
  The specification's rule for the number of decimals: none at the B scale, one below 10
  of a unit, two otherwise. The rest is the code's.
\<close>

definition specFixedDigits :: "nat \<Rightarrow> rat \<Rightarrow> nat" where
  "specFixedDigits i n = (if i = 0 then 0 else if n < 10 then 1 else 2)"

definition specFormatBytes :: "(rat \<Rightarrow> string) \<Rightarrow> jsnum \<Rightarrow> string" where
  "specFormatBytes numstr bytes =
     (case bytes of
        Fin b \<Rightarrow>
          if b \<le> 0 then ''0 B''
          else let (n, i) = scaleLoop b 0
               in toFixed numstr n (specFixedDigits i n) @ '' '' @ units ! i
      | _ \<Rightarrow> ''0 B'')"

subsection \<open>The cache and the trace\<close>

text \<open>A cached file that \<^verbatim>\<open>stat\<close> can read and whose age is within the time to live.\<close>

definition cachedFresh :: "world \<Rightarrow> string \<Rightarrow> jsnum \<Rightarrow> bool" where
  "cachedFresh w p ttlDays =
     (case files w p of
        None \<Rightarrow> False
      | Some st \<Rightarrow> \<not> stat_fails w p \<and> freshAge (now w - mtimeMs st) ttlDays)"

text \<open>The calls a probe of the given extensions makes: an existence test for each, and a
  \<^verbatim>\<open>stat\<close> for those that exist.\<close>

definition probeTrace :: "world \<Rightarrow> string \<Rightarrow> string list \<Rightarrow> event list" where
  "probeTrace w base exts =
     concat (map (\<lambda>x. Exists (base @ x) # (if files w (base @ x) = None then [] else [Stat (base @ x)])) exts)"

definition hitFor :: "string \<Rightarrow> string \<Rightarrow> string \<Rightarrow> cover" where
  "hitFor base name ext =
     \<lparr>coverUrl = Some (toCoverRoute (name @ ext)), coverCachePath = Some (base @ ext)\<rparr>"

definition sameOracles :: "world \<Rightarrow> world \<Rightarrow> bool" where
  "sameOracles w w' =
     (now w' = now w \<and> net w' = net w \<and> stat_fails w' = stat_fails w \<and>
      write_fails w' = write_fails w \<and> remove_fails w' = remove_fails w \<and>
      read_fails w' = read_fails w)"

text \<open>The URLs requested, in order, and the events a call added to the trace.\<close>

fun fetchesOf :: "event list \<Rightarrow> string list" where
  "fetchesOf [] = []"
| "fetchesOf (Fetch u # es) = u # fetchesOf es"
| "fetchesOf (_ # es) = fetchesOf es"

definition newEvents :: "world \<Rightarrow> world \<Rightarrow> event list" where
  "newEvents w w' = drop (length (trace w)) (trace w')"

text \<open>
  The search term as the specification words it: the first of configured term, title and
  folder name that is non-empty after trimming.
\<close>

definition specSearchTerm :: "podcastSource \<Rightarrow> string" where
  "specSearchTerm source =
     (let a = trim (orEmpty (coverSearchTerm (config source)));
          b = trim (title (config source));
          c = trim (dirName source)
      in if a \<noteq> [] then a else if b \<noteq> [] then b else c)"

subsection \<open>Example inputs\<close>

definition exampleRuntime :: runtime where
  "exampleRuntime =
     \<lparr>cwd = ''/app'', pathJoin = (\<lambda>a b. a @ ''/'' @ b), utf8Decode = (\<lambda>b. b),
      numToString = (\<lambda>_. [])\<rparr>"

text \<open>The defaults of \<^verbatim>\<open>getEnvConfig\<close>.\<close>

definition defaultEnv :: envConfig where
  "defaultEnv =
     \<lparr>EPISODE_SHOWNOTES = ''full'', EPISODE_INLINE_ATTACHMENTS = ''all'',
      EPISODE_INLINE_TEXT_MAX_CHARS = Fin 8000, REMOTE_COVER_ENABLED = True,
      REMOTE_COVER_PROVIDER = ''itunes'', REMOTE_COVER_COUNTRY = ''cn'',
      REMOTE_COVER_TTL_DAYS = Fin 30, REMOTE_COVER_TIMEOUT_MS = Fin 8000\<rparr>"

definition episode1 :: episode where
  "episode1 =
     \<lparr>epTitle = ''Episode 1'', fileName = ''ep1.mp3'', filePath = ''/audio/show/ep1.mp3'',
      pubDate = Some ''2024-01-02T03:04:05.000Z''\<rparr>"

definition showWith :: "string option \<Rightarrow> string option \<Rightarrow> podcastSource" where
  "showWith url term =
     \<lparr>dirName = ''show'', dirPath = ''/audio/show'',
      config = \<lparr>title = ''My Show'', coverImageUrl = url, coverSearchTerm = term\<rparr>,
      episodes = [episode1]\<rparr>"

definition quietWorld :: world where
  "quietWorld =
     \<lparr>files = Map.empty, now = 100 * msPerDay, net = (\<lambda>_. Rejected),
      stat_fails = (\<lambda>_. False), write_fails = (\<lambda>_. False), remove_fails = (\<lambda>_. False),
      read_fails = (\<lambda>_. False), trace = []\<rparr>"

definition staleNode :: node where
  "staleNode = \<lparr>mtimeMs = 0, isFile = True, content = ''old''\<rparr>"

text \<open>A stale \<^verbatim>\<open>show.png\<close> in the cache, and a server that delivers \<^verbatim>\<open>c.jpg\<close>.\<close>

definition coverWorld :: world where
  "coverWorld =
     quietWorld\<lparr>files := [''/app/.covers/show.png'' \<mapsto> staleNode],
       net := (\<lambda>u. if u = ''http://img.example/c.jpg'' then Response True (Some ''JPG'') None
                    else Rejected)\<rparr>"

text \<open>The same, but the stale file cannot be deleted.\<close>

definition stuckWorld :: world where
  "stuckWorld = coverWorld\<lparr>remove_fails := (\<lambda>p. p = ''/app/.covers/show.png'')\<rparr>"

text \<open>An empty cache and a directory that knows \<^verbatim>\<open>My Show\<close>.\<close>

definition searchWorld :: world where
  "searchWorld =
     quietWorld\<lparr>net := (\<lambda>u.
        if u = itunesSearchUrl ''My Show'' ''cn''
        then Response True None
               (Some (JObj [(''resultCount'', JNum 1),
                            (''results'', JArr [JObj [(''artworkUrl100'', JStr ''http://img.example/a100.jpg''),
                                                      (''artworkUrl600'', JStr ''http://img.example/a.jpg'')]])]))
        else if u = ''http://img.example/a.jpg'' then Response True (Some ''ART'') None
        else Rejected)\<rparr>"

text \<open>A directory whose answer carries a number where the artwork URL should be.\<close>

definition badJsonWorld :: world where
  "badJsonWorld =
     quietWorld\<lparr>net := (\<lambda>u.
        if u = itunesSearchUrl ''My Show'' ''cn''
        then Response True None
               (Some (JObj [(''results'', JArr [JObj [(''artworkUrl600'', JNum 600)]])]))
        else Rejected)\<rparr>"

text \<open>A cache with a stale \<^verbatim>\<open>.jpg\<close> and fresh \<^verbatim>\<open>.png\<close> and \<^verbatim>\<open>.webp\<close> files.\<close>

definition freshNode :: node where
  "freshNode = \<lparr>mtimeMs = 99 * msPerDay, isFile = True, content = ''new''\<rparr>"

definition probeWorld :: world where
  "probeWorld =
     quietWorld\<lparr>files := [''/app/.covers/show.jpg'' \<mapsto> staleNode,
                            ''/app/.covers/show.png'' \<mapsto> freshNode,
                            ''/app/.covers/show.webp'' \<mapsto> freshNode]\<rparr>"

subsection \<open>Show notes\<close>

text \<open>
  What \<^verbatim>\<open>readTextTruncated\<close> yields for an existing path: nothing when \<^verbatim>\<open>stat\<close> or the read
  fails or the path is no file, else the first \<open>n\<close> characters of the decoded first
  \<open>max 1024 (n * 4)\<close> bytes.
\<close>

definition inlineTextAt :: "runtime \<Rightarrow> world \<Rightarrow> string \<Rightarrow> nat \<Rightarrow> string" where
  "inlineTextAt rt w p n =
     (case files w p of
        None \<Rightarrow> []
      | Some st \<Rightarrow>
          if stat_fails w p \<or> \<not> isFile st \<or> read_fails w p then []
          else take n (utf8Decode rt (take (max 1024 (n * 4)) (content st))))"

text \<open>The attachment for an extension whose sidecar file exists.\<close>

definition sidecarOf ::
  "runtime \<Rightarrow> world \<Rightarrow> string \<Rightarrow> string \<Rightarrow> string \<Rightarrow> string \<Rightarrow> nat \<Rightarrow> string \<Rightarrow> attachment" where
  "sidecarOf rt w dpath stem baseUrl dname n ext =
     \<lparr>attFileName = stem @ ''.'' @ ext,
      attUrl = baseUrl @ ''/audio/'' @ encodeURIComponent dname @ ''/'' @
               encodeURIComponent (stem @ ''.'' @ ext),
      attKind = kindOf ext,
      inlineText = (if kindOf ext = Text
                    then Some (inlineTextAt rt w (pathJoin rt dpath (stem @ ''.'' @ ext)) n)
                    else None)\<rparr>"

definition sidecarExists :: "runtime \<Rightarrow> world \<Rightarrow> string \<Rightarrow> string \<Rightarrow> string \<Rightarrow> bool" where
  "sidecarExists rt w dpath stem ext = (files w (pathJoin rt dpath (stem @ ''.'' @ ext)) \<noteq> None)"

text \<open>The attachments \<^verbatim>\<open>buildEpisodeShownotes\<close> works with in full mode.\<close>

definition attachmentsOf ::
  "runtime \<Rightarrow> podcastSource \<Rightarrow> episode \<Rightarrow> string \<Rightarrow> nat \<Rightarrow> world \<Rightarrow> attachment list" where
  "attachmentsOf rt source ep baseUrl n w =
     fst (findSidecarAttachments rt (dirPath source) (fileName ep) baseUrl (dirName source) n w)"

text \<open>
  The two inline sections in words: the images under \<^verbatim>\<open>images\<close> and \<^verbatim>\<open>all\<close>; the notes
  under \<^verbatim>\<open>all\<close> only, each text attachment as a link, followed by a \<^verbatim>\<open><pre>\<close> block of its
  escaped inline text after trimming, unless that is empty.
\<close>

definition imagesSection :: "string \<Rightarrow> attachment list \<Rightarrow> string list" where
  "imagesSection inl atts =
     (if (inl = ''images'' \<or> inl = ''all'') \<and> filter (\<lambda>a. attKind a = Image) atts \<noteq> []
      then imagesHeader # map imagePart (filter (\<lambda>a. attKind a = Image) atts) else [])"

definition notesSection :: "string \<Rightarrow> attachment list \<Rightarrow> string list" where
  "notesSection inl atts =
     (if inl = ''all'' \<and> filter (\<lambda>a. attKind a = Text) atts \<noteq> []
      then notesHeader #
           concat (map (\<lambda>t. (''<p>'' @ attachmentLink t @ ''</p>'') #
                              (if trim (orEmpty (inlineText t)) = [] then []
                               else [''<pre>'' @ escapeHtml (trim (orEmpty (inlineText t))) @ ''</pre>'']))
                       (filter (\<lambda>a. attKind a = Text) atts))
      else [])"

text \<open>An episode \<^verbatim>\<open>ep1.mp3\<close> with the sidecar \<^verbatim>\<open>ep1.md\<close>, whose text ends in a line feed.\<close>

definition notesWorld :: world where
  "notesWorld =
     quietWorld\<lparr>files :=
       [''/audio/show/ep1.mp3'' \<mapsto> \<lparr>mtimeMs = 0, isFile = True, content = ''ID3''\<rparr>,
        ''/audio/show/ep1.md'' \<mapsto>
          \<lparr>mtimeMs = 0, isFile = True, content = ''Notes & links'' @ [CHR 0x0A]\<rparr>]\<rparr>"

definition smallEnv :: envConfig where
  "smallEnv = defaultEnv\<lparr>EPISODE_INLINE_TEXT_MAX_CHARS := Fin 100\<rparr>"

section \<open>Properties of the text helpers\<close>

lemma replaceChar_Nil: "replaceChar c r [] = []"
  by (simp add: replaceChar_def)

lemma replaceChar_Cons: "replaceChar c r (d # s) = (if d = c then r else [d]) @ replaceChar c r s"
  by (simp add: replaceChar_def)

lemma replaceChar_append: "replaceChar c r (a @ b) = replaceChar c r a @ replaceChar c r b"
  by (simp add: replaceChar_def)

lemma escapeHtml_map: "escapeHtml s = concat (map entityOf s)"
  by (induction s)
     (auto simp: escapeHtml_def replaceChar_Cons replaceChar_Nil replaceChar_append entityOf_def
        dquote_def squote_def)

lemma escapeHtml_chars: "set (escapeHtml s) \<inter> {CHR ''<'', CHR ''>'', dquote, squote} = {}"
  by (induction s) (auto simp: escapeHtml_map entityOf_def dquote_def squote_def)

lemma undo_lt: "replaceAll ''&lt;'' ''<'' (concat (map entityOf s)) = concat (map entityAfterLt s)"
  by (induction s) (auto simp: entityOf_def entityAfterLt_def dquote_def squote_def)

lemma undo_gt: "replaceAll ''&gt;'' ''>'' (concat (map entityAfterLt s)) = concat (map entityAfterGt s)"
  by (induction s) (auto simp: entityOf_def entityAfterLt_def entityAfterGt_def dquote_def squote_def)

lemma undo_quot:
  "replaceAll ''&quot;'' [dquote] (concat (map entityAfterGt s)) = concat (map entityAfterQuot s)"
  by (induction s)
     (auto simp: entityOf_def entityAfterLt_def entityAfterGt_def entityAfterQuot_def dquote_def
        squote_def)

lemma undo_apos:
  "replaceAll ''&#39;'' [squote] (concat (map entityAfterQuot s)) = concat (map entityAfterApos s)"
  by (induction s)
     (auto simp: entityOf_def entityAfterLt_def entityAfterGt_def entityAfterQuot_def
        entityAfterApos_def dquote_def squote_def)

lemma undo_amp: "replaceAll ''&amp;'' ''&'' (concat (map entityAfterApos s)) = s"
  by (induction s)
     (auto simp: entityOf_def entityAfterLt_def entityAfterGt_def entityAfterQuot_def
        entityAfterApos_def dquote_def squote_def)

lemma unescape_escape: "unescapeHtml (escapeHtml s) = s"
  by (simp add: unescapeHtml_def escapeHtml_map undo_lt undo_gt undo_quot undo_apos undo_amp)

text \<open>
  C9. For every string, the escaped text holds none of the characters \<^verbatim>\<open><\<close>, \<^verbatim>\<open>>\<close>, the
  double quote and the apostrophe, and replacing the entities \<^verbatim>\<open>&lt;\<close>, \<^verbatim>\<open>&gt;\<close>, \<^verbatim>\<open>&quot;\<close>,
  \<^verbatim>\<open>&#39;\<close> and then \<^verbatim>\<open>&amp;\<close> back gives the string again.
\<close>

theorem escapeHtml_roundtrip:
  "set (escapeHtml s) \<inter> {CHR ''<'', CHR ''>'', dquote, squote} = {} \<and>
   unescapeHtml (escapeHtml s) = s"
  using escapeHtml_chars unescape_escape by blast

theorem escapeHtml_roundtrip_witness:
  "set (escapeHtml ''<a href=x>Q&amp;A</a>'') \<inter> {CHR ''<'', CHR ''>'', dquote, squote} = {} \<and>
   unescapeHtml (escapeHtml ''<a href=x>Q&amp;A</a>'') = ''<a href=x>Q&amp;A</a>''"
  using escapeHtml_roundtrip [of "''<a href=x>Q&amp;A</a>''"] by simp

lemma scaleLoop_spec:
  "scaleLoop n i = (n', i') \<Longrightarrow> i \<le> 4 \<Longrightarrow>
     i \<le> i' \<and> i' \<le> 4 \<and> n' = n / 1024 ^ (i' - i) \<and> (n' < 1024 \<or> i' = 4) \<and>
     (\<forall>j. i \<le> j \<and> j < i' \<longrightarrow> 1024 \<le> n / 1024 ^ (j - i))"
proof (induction n i arbitrary: n' i' rule: scaleLoop.induct)
  case (1 n i)
  show ?case
  proof (cases "1024 \<le> n \<and> i < length units - 1")
    case True
    then have step: "scaleLoop (n / 1024) (i + 1) = (n', i')"
      using "1.prems"(1) by (subst (asm) scaleLoop.simps) simp
    have i4: "i + 1 \<le> 4" using True by (simp add: units_def)
    note ih = "1.IH"[OF True step i4]
    have le: "i + 1 \<le> i'" using ih by simp
    then have e: "i' - i = Suc (i' - (i + 1))" by arith
    have a: "n' = n / 1024 ^ (i' - i)" using ih by (simp add: e)
    have b: "\<forall>j. i \<le> j \<and> j < i' \<longrightarrow> 1024 \<le> n / 1024 ^ (j - i)"
    proof (intro allI impI)
      fix j assume j: "i \<le> j \<and> j < i'"
      show "1024 \<le> n / 1024 ^ (j - i)"
      proof (cases "j = i")
        case True
        then show ?thesis using \<open>1024 \<le> n \<and> i < length units - 1\<close> by simp
      next
        case False
        then have j1: "i + 1 \<le> j \<and> j < i'" using j by simp
        then have "1024 \<le> n / 1024 / 1024 ^ (j - (i + 1))" using ih by blast
        moreover have "j - i = Suc (j - (i + 1))" using j1 by arith
        ultimately show ?thesis by simp
      qed
    qed
    show ?thesis using ih a b le by simp
  next
    case False
    then have "scaleLoop n i = (n, i)" by (subst scaleLoop.simps) auto
    then have "n' = n" "i' = i" using "1.prems"(1) by simp_all
    then show ?thesis using False "1.prems"(2) by (auto simp: units_def)
  qed
qed

lemma formatBytes_zero: "\<not> isFinite b \<or> js_le b (Fin 0) \<Longrightarrow> formatBytes ns b = ''0 B''"
  by (cases b) (auto simp: formatBytes_def)

lemma formatBytes_pos:
  assumes "0 < x"
  shows "\<exists>i\<le>4. (x / 1024 ^ i < 1024 \<or> i = 4) \<and> (\<forall>j<i. 1024 \<le> x / 1024 ^ j) \<and>
           formatBytes ns (Fin x) =
             toFixed ns (x / 1024 ^ i) (if i = 0 then 0 else if x / 1024 ^ i < 10 then 2 else 1) @
             '' '' @ units ! i"
proof -
  obtain n i where s: "scaleLoop x 0 = (n, i)" by (cases "scaleLoop x 0")
  from scaleLoop_spec[OF s] have p: "i \<le> 4" "n = x / 1024 ^ i" "n < 1024 \<or> i = 4"
    "\<forall>j<i. 1024 \<le> x / 1024 ^ j" by auto
  have "formatBytes ns (Fin x) = toFixed ns n (fixedDigits i n) @ '' '' @ units ! i"
    using assms s by (simp add: formatBytes_def)
  then show ?thesis using p by (intro exI[of _ i]) (auto simp: fixedDigits_def)
qed

lemma formatBytes_0: "formatBytes ns (Fin 0) = ''0 B''"
  by code_simp

lemma formatBytes_1024: "formatBytes ns (Fin 1024) = ''1.00 KB''"
  by code_simp

lemma formatBytes_1536: "formatBytes ns (Fin 1536) = ''1.50 KB''"
  by code_simp

lemma formatBytes_10240: "formatBytes ns (Fin (10 * 1024)) = ''10.0 KB''"
  by code_simp

text \<open>
  C7, as stated, fails: at 1024 bytes the value is 1 of the unit KB, below 10, and the
  code prints two decimals where the rule in words gives one.
\<close>

theorem formatBytes_decimals_counterexample:
  "formatBytes (\<lambda>_. []) (Fin 1024) = ''1.00 KB'' \<and>
   specFormatBytes (\<lambda>_. []) (Fin 1024) = ''1.0 KB''"
  by code_simp

text \<open>
  C7, amended. A non-finite or non-positive input gives \<^verbatim>\<open>0 B\<close>. A positive input \<open>x\<close> is
  divided by 1024 as long as it is at least 1024 and a larger unit remains, which gives
  \<open>x / 1024 ^ i\<close> for the unit of index \<open>i\<close>; it is printed by \<^verbatim>\<open>toFixed\<close> with no decimals at
  the B scale, two decimals below 10 of a unit and one decimal from 10 on. The four
  examples of the claim hold.
\<close>

theorem formatBytes_spec:
  "(\<not> isFinite b \<or> js_le b (Fin 0) \<longrightarrow> formatBytes ns b = ''0 B'') \<and>
   (0 < x \<longrightarrow>
      (\<exists>i\<le>4. (x / 1024 ^ i < 1024 \<or> i = 4) \<and> (\<forall>j<i. 1024 \<le> x / 1024 ^ j) \<and>
         formatBytes ns (Fin x) =
           toFixed ns (x / 1024 ^ i) (if i = 0 then 0 else if x / 1024 ^ i < 10 then 2 else 1) @
           '' '' @ units ! i)) \<and>
   formatBytes ns (Fin 0) = ''0 B'' \<and>
   formatBytes ns (Fin 1024) = ''1.00 KB'' \<and>
   formatBytes ns (Fin 1536) = ''1.50 KB'' \<and>
   formatBytes ns (Fin (10 * 1024)) = ''10.0 KB''"
  using formatBytes_zero [of b ns] formatBytes_pos [of x ns]
    formatBytes_0 formatBytes_1024 formatBytes_1536 formatBytes_10240
  by blast

theorem formatBytes_spec_witness:
  "formatBytes (\<lambda>_. []) PosInf = ''0 B'' \<and>
   (\<exists>i\<le>4. ((5000000 :: rat) / 1024 ^ i < 1024 \<or> i = 4) \<and> (\<forall>j<i. 1024 \<le> (5000000 :: rat) / 1024 ^ j) \<and>
      formatBytes (\<lambda>_. []) (Fin 5000000) =
        toFixed (\<lambda>_. []) (5000000 / 1024 ^ i)
          (if i = 0 then 0 else if (5000000 :: rat) / 1024 ^ i < 10 then 2 else 1) @
        '' '' @ units ! i)"
  using formatBytes_spec [of PosInf "\<lambda>_. []" 5000000] by simp

section \<open>Properties of the cover resolver\<close>

lemma logEvent_fields [simp]:
  "files (logEvent e w) = files w"
  "now (logEvent e w) = now w"
  "net (logEvent e w) = net w"
  "stat_fails (logEvent e w) = stat_fails w"
  "write_fails (logEvent e w) = write_fails w"
  "remove_fails (logEvent e w) = remove_fails w"
  "read_fails (logEvent e w) = read_fails w"
  "trace (logEvent e w) = trace w @ [e]"
  by (simp_all add: logEvent_def)

lemma logEvent_trace_upd: "logEvent e (w\<lparr>trace := t\<rparr>) = w\<lparr>trace := t @ [e]\<rparr>"
  by (simp add: logEvent_def)

lemma logEvent_as_upd: "logEvent e w = w\<lparr>trace := trace w @ [e]\<rparr>"
  by (simp add: logEvent_def)

lemma cachedFresh_trace [simp]: "cachedFresh (w\<lparr>trace := t\<rparr>) p T = cachedFresh w p T"
  by (simp add: cachedFresh_def split: option.splits)

lemma probeTrace_trace [simp]: "probeTrace (w\<lparr>trace := t\<rparr>) b xs = probeTrace w b xs"
  by (simp add: probeTrace_def)

lemma isFresh_eq:
  "isFresh p T w = (cachedFresh w p T, w\<lparr>trace := trace w @ [Stat p]\<rparr>)"
  by (auto simp: isFresh_def stat_def cachedFresh_def logEvent_as_upd split: option.splits)

lemma pathExists_eq: "pathExists p w = (files w p \<noteq> None, w\<lparr>trace := trace w @ [Exists p]\<rparr>)"
  by (simp add: pathExists_def logEvent_as_upd)

lemma cachedFresh_exists: "cachedFresh w p T \<Longrightarrow> files w p \<noteq> None"
  by (auto simp: cachedFresh_def split: option.splits)

lemma probeLoop_miss:
  "\<forall>e\<in>set exts. \<not> cachedFresh w (base @ e) T \<Longrightarrow>
   probeLoop base name T exts w = (None, w\<lparr>trace := trace w @ probeTrace w base exts\<rparr>)"
proof (induction exts arbitrary: w)
  case Nil
  then show ?case by (simp add: probeTrace_def)
next
  case (Cons x xs)
  have nf: "\<not> cachedFresh w (base @ x) T" and rest: "\<forall>e\<in>set xs. \<not> cachedFresh w (base @ e) T"
    using Cons.prems by simp_all
  show ?case
  proof (cases "files w (base @ x) = None")
    case True
    have "\<forall>e\<in>set xs. \<not> cachedFresh (w\<lparr>trace := trace w @ [Exists (base @ x)]\<rparr>) (base @ e) T"
      using rest by simp
    from Cons.IH[OF this] True show ?thesis
      by (simp add: pathExists_eq probeTrace_def Let_def)
  next
    case False
    have "\<forall>e\<in>set xs. \<not> cachedFresh (w\<lparr>trace := trace w @ [Exists (base @ x), Stat (base @ x)]\<rparr>) (base @ e) T"
      using rest by simp
    from Cons.IH[OF this] False nf show ?thesis
      by (auto simp add: pathExists_eq isFresh_eq probeTrace_def Let_def)
  qed
qed

lemma probeLoop_hit:
  "\<forall>x\<in>set pre. \<not> cachedFresh w (base @ x) T \<Longrightarrow> cachedFresh w (base @ e) T \<Longrightarrow>
   probeLoop base name T (pre @ e # post) w =
     (Some (hitFor base name e), w\<lparr>trace := trace w @ probeTrace w base (pre @ [e])\<rparr>)"
proof (induction pre arbitrary: w)
  case Nil
  then show ?case
    using cachedFresh_exists[of w "base @ e" T]
    by (auto simp: pathExists_eq isFresh_eq probeTrace_def hitFor_def Let_def)
next
  case (Cons x xs)
  have nf: "\<not> cachedFresh w (base @ x) T" and rest: "\<forall>e\<in>set xs. \<not> cachedFresh w (base @ e) T"
    using Cons.prems by simp_all
  show ?case
  proof (cases "files w (base @ x) = None")
    case True
    let ?w = "w\<lparr>trace := trace w @ [Exists (base @ x)]\<rparr>"
    have a: "\<forall>e\<in>set xs. \<not> cachedFresh ?w (base @ e) T" using rest by simp
    have b: "cachedFresh ?w (base @ e) T" using Cons.prems(2) by simp
    from Cons.IH[OF a b] True show ?thesis
      by (simp add: pathExists_eq probeTrace_def Let_def)
  next
    case False
    let ?w = "w\<lparr>trace := trace w @ [Exists (base @ x), Stat (base @ x)]\<rparr>"
    have a: "\<forall>e\<in>set xs. \<not> cachedFresh ?w (base @ e) T" using rest by simp
    have b: "cachedFresh ?w (base @ e) T" using Cons.prems(2) by simp
    from Cons.IH[OF a b] False nf show ?thesis
      by (auto simp add: pathExists_eq isFresh_eq probeTrace_def Let_def)
  qed
qed

lemma first_fresh_split:
  "\<exists>e\<in>set exts. P e \<Longrightarrow> \<exists>pre e post. exts = pre @ e # post \<and> P e \<and> (\<forall>x\<in>set pre. \<not> P x)"
  by (metis split_list_first_prop)

lemma probeLoop_result:
  "probeLoop base name T exts w = (r, w') \<Longrightarrow>
     (r = None \<and> (\<forall>e\<in>set exts. \<not> cachedFresh w (base @ e) T) \<and>
        w' = w\<lparr>trace := trace w @ probeTrace w base exts\<rparr>) \<or>
     (\<exists>pre e post. exts = pre @ e # post \<and> (\<forall>x\<in>set pre. \<not> cachedFresh w (base @ x) T) \<and>
        cachedFresh w (base @ e) T \<and> r = Some (hitFor base name e) \<and>
        w' = w\<lparr>trace := trace w @ probeTrace w base (pre @ [e])\<rparr>)"
proof (cases "\<exists>e\<in>set exts. cachedFresh w (base @ e) T")
  case True
  assume run: "probeLoop base name T exts w = (r, w')"
  from first_fresh_split[OF True] obtain pre e post where
    s: "exts = pre @ e # post" "cachedFresh w (base @ e) T" "\<forall>x\<in>set pre. \<not> cachedFresh w (base @ x) T"
    by blast
  from probeLoop_hit[OF s(3) s(2), of name post] run s(1)
  have "r = Some (hitFor base name e)" "w' = w\<lparr>trace := trace w @ probeTrace w base (pre @ [e])\<rparr>"
    by simp_all
  with s show ?thesis by blast
next
  case False
  assume run: "probeLoop base name T exts w = (r, w')"
  from False have "\<forall>e\<in>set exts. \<not> cachedFresh w (base @ e) T" by blast
  from probeLoop_miss[OF this, of name] run this show ?thesis by simp
qed

lemma freshAge_fin: "freshAge a (Fin t) = (0 \<le> a \<and> a < t * 86400000)"
  by (simp add: freshAge_def msPerDay_def)

lemma remove_eq:
  "remove p w =
     (if remove_fails w p then (Inl IOError, w\<lparr>trace := trace w @ [Remove p]\<rparr>)
      else (Inr (), w\<lparr>files := (files w)(p := None), trace := trace w @ [Remove p]\<rparr>))"
  by (simp add: remove_def logEvent_def)

lemma writeFile_eq:
  "writeFile p buf w =
     (if write_fails w p then (Inl IOError, w\<lparr>trace := trace w @ [Write p]\<rparr>)
      else (Inr (), w\<lparr>files := (files w)(p \<mapsto> \<lparr>mtimeMs = now w, isFile = True, content = buf\<rparr>),
                       trace := trace w @ [Write p]\<rparr>))"
  by (simp add: writeFile_def logEvent_def)

lemma fetch_eq: "fetch url w = (net w url, w\<lparr>trace := trace w @ [Fetch url]\<rparr>)"
  by (simp add: fetch_def logEvent_def)

lemma sameOracles_refl [simp]: "sameOracles w w" by (simp add: sameOracles_def)
lemma sameOracles_trans: "sameOracles a b \<Longrightarrow> sameOracles b c \<Longrightarrow> sameOracles a c"
  by (simp add: sameOracles_def)

lemma cleanupLoop_spec:
  "cleanupLoop base keep exts w = (r, w') \<Longrightarrow>
     sameOracles w w' \<and>
     (\<forall>p. files w' p = files w p \<or> (files w' p = None \<and> \<not> remove_fails w p \<and> (\<exists>e\<in>set exts. e \<noteq> keep \<and> p = base @ e))) \<and>
     ((\<exists>u. r = Inr u) = (\<forall>e\<in>set exts. e \<noteq> keep \<and> files w (base @ e) \<noteq> None \<longrightarrow> \<not> remove_fails w (base @ e))) \<and>
     ((\<exists>u. r = Inr u) \<longrightarrow> (\<forall>e\<in>set exts. e \<noteq> keep \<longrightarrow> files w' (base @ e) = None))"
proof (induction exts arbitrary: w)
  case Nil
  then show ?case by auto
next
  case (Cons x xs)
  show ?case
  proof (cases "x = keep")
    case True
    with Cons.prems have "cleanupLoop base keep xs w = (r, w')" by simp
    from Cons.IH[OF this] True show ?thesis by auto
  next
    case False
    note xk = False
    show ?thesis
    proof (cases "files w (base @ x) = None")
      case True
      let ?w = "w\<lparr>trace := trace w @ [Exists (base @ x)]\<rparr>"
      from Cons.prems xk True have "cleanupLoop base keep xs ?w = (r, w')"
        by (simp add: pathExists_eq Let_def)
      from Cons.IH[OF this] have ih:
        "sameOracles ?w w'"
        "\<forall>p. files w' p = files ?w p \<or> (files w' p = None \<and> \<not> remove_fails ?w p \<and> (\<exists>e\<in>set xs. e \<noteq> keep \<and> p = base @ e))"
        "(\<exists>u. r = Inr u) = (\<forall>e\<in>set xs. e \<noteq> keep \<and> files ?w (base @ e) \<noteq> None \<longrightarrow> \<not> remove_fails ?w (base @ e))"
        "(\<exists>u. r = Inr u) \<longrightarrow> (\<forall>e\<in>set xs. e \<noteq> keep \<longrightarrow> files w' (base @ e) = None)"
        by blast+
      have a: "sameOracles w w'" using ih(1) by (simp add: sameOracles_def)
      have b: "\<forall>p. files w' p = files w p \<or> (files w' p = None \<and> \<not> remove_fails w p \<and> (\<exists>e\<in>set (x # xs). e \<noteq> keep \<and> p = base @ e))"
        using ih(2) by auto
      have c: "(\<exists>u. r = Inr u) = (\<forall>e\<in>set (x # xs). e \<noteq> keep \<and> files w (base @ e) \<noteq> None \<longrightarrow> \<not> remove_fails w (base @ e))"
        using ih(3) True by auto
      have x0: "files w' (base @ x) = None"
        using ih(2)[rule_format, of "base @ x"] True by auto
      have d: "(\<exists>u. r = Inr u) \<longrightarrow> (\<forall>e\<in>set (x # xs). e \<noteq> keep \<longrightarrow> files w' (base @ e) = None)"
        using ih(4) x0 by auto
      show ?thesis using a b c d by blast
    next
      case False
      note ex = False
      show ?thesis
      proof (cases "remove_fails w (base @ x)")
        case True
        with Cons.prems xk ex have "r = Inl IOError"
          "w' = w\<lparr>trace := trace w @ [Exists (base @ x), Remove (base @ x)]\<rparr>"
          by (auto simp: pathExists_eq remove_eq Let_def)
        with True xk ex show ?thesis by (auto simp: sameOracles_def)
      next
        case False
        let ?w = "w\<lparr>files := (files w)(base @ x := None), trace := trace w @ [Exists (base @ x), Remove (base @ x)]\<rparr>"
        from Cons.prems xk ex False have "cleanupLoop base keep xs ?w = (r, w')"
          by (auto simp: pathExists_eq remove_eq Let_def)
        from Cons.IH[OF this] have ih:
          "sameOracles ?w w'"
          "\<forall>p. files w' p = files ?w p \<or> (files w' p = None \<and> \<not> remove_fails ?w p \<and> (\<exists>e\<in>set xs. e \<noteq> keep \<and> p = base @ e))"
          "(\<exists>u. r = Inr u) = (\<forall>e\<in>set xs. e \<noteq> keep \<and> files ?w (base @ e) \<noteq> None \<longrightarrow> \<not> remove_fails ?w (base @ e))"
          "(\<exists>u. r = Inr u) \<longrightarrow> (\<forall>e\<in>set xs. e \<noteq> keep \<longrightarrow> files w' (base @ e) = None)"
          by blast+
        have a: "sameOracles w w'" using ih(1) by (simp add: sameOracles_def)
        have b: "\<forall>p. files w' p = files w p \<or> (files w' p = None \<and> \<not> remove_fails w p \<and> (\<exists>e\<in>set (x # xs). e \<noteq> keep \<and> p = base @ e))"
        proof
          fix p
          show "files w' p = files w p \<or> (files w' p = None \<and> \<not> remove_fails w p \<and> (\<exists>e\<in>set (x # xs). e \<noteq> keep \<and> p = base @ e))"
            using ih(2)[rule_format, of p] False xk by (cases "p = base @ x") auto
        qed
        have c: "(\<exists>u. r = Inr u) = (\<forall>e\<in>set (x # xs). e \<noteq> keep \<and> files w (base @ e) \<noteq> None \<longrightarrow> \<not> remove_fails w (base @ e))"
          using ih(3) False by auto
        have d: "(\<exists>u. r = Inr u) \<longrightarrow> (\<forall>e\<in>set (x # xs). e \<noteq> keep \<longrightarrow> files w' (base @ e) = None)"
        proof (intro impI ballI)
          fix e assume r: "\<exists>u. r = Inr u" and e: "e \<in> set (x # xs)" "e \<noteq> keep"
          show "files w' (base @ e) = None"
          proof (cases "e = x")
            case True
            then show ?thesis using ih(2)[rule_format, of "base @ x"] by auto
          next
            case False
            then show ?thesis using ih(4) r e by auto
          qed
        qed
        show ?thesis using a b c d by blast
      qed
    qed
  qed
qed

lemma guessExt_in: "guessExtFromUrl u \<in> set coverExts"
  by (simp add: guessExtFromUrl_def coverExts_def Let_def)

lemma downloadToFile_spec:
  "downloadToFile u p t w = (r, w') \<Longrightarrow>
     sameOracles w w' \<and> trace w' = trace w @ [Fetch u] @ (if \<exists>b j. net w u = Response True (Some b) j then [Write p] else []) \<and>
     (case r of
        Inr _ \<Rightarrow> (\<exists>buf j. net w u = Response True (Some buf) j \<and> \<not> write_fails w p \<and>
                   files w' = (files w)(p \<mapsto> \<lparr>mtimeMs = now w, isFile = True, content = buf\<rparr>))
      | Inl _ \<Rightarrow> files w' = files w \<and> \<not> (\<exists>buf j. net w u = Response True (Some buf) j \<and> \<not> write_fails w p))"
  by (auto simp: downloadToFile_def fetch_eq writeFile_eq sameOracles_def split: response.splits if_splits option.splits)

lemma fetchesOf_append [simp]: "fetchesOf (xs @ ys) = fetchesOf xs @ fetchesOf ys"
  by (induction xs rule: fetchesOf.induct) auto

lemma fetchesOf_probeTrace [simp]: "fetchesOf (probeTrace w base exts) = []"
  by (induction exts) (auto simp: probeTrace_def)

lemma cacheProbe_miss:
  assumes "fst (cacheProbe rt env source w) = None"
  shows "cacheProbe rt env source w =
           (None, w\<lparr>trace := trace w @ probeTrace w (baseNoExtOf rt source) coverExts\<rparr>)"
proof -
  obtain r w' where run: "probeLoop (baseNoExtOf rt source) (dirName source) (REMOTE_COVER_TTL_DAYS env) coverExts w = (r, w')"
    by (cases "probeLoop (baseNoExtOf rt source) (dirName source) (REMOTE_COVER_TTL_DAYS env) coverExts w")
  with assms have "r = None" by (simp add: cacheProbe_def)
  with probeLoop_result[OF run] run show ?thesis by (auto simp: cacheProbe_def)
qed

lemma itunesSearchArtwork_world:
  "snd (itunesSearchArtwork term country t w) = w\<lparr>trace := trace w @ [Fetch (itunesSearchUrl term country)]\<rparr>"
  by (simp add: itunesSearchArtwork_def fetch_eq Let_def split: response.splits option.splits list.splits jsval.splits)

lemma pickArtwork_direct:
  "directUrlOf source \<noteq> [] \<Longrightarrow> pickArtwork env source w = (JStr (directUrlOf source), w)"
  by (simp add: pickArtwork_def)

lemma pickArtwork_noterm:
  "directUrlOf source = [] \<Longrightarrow> searchTermOf source = [] \<Longrightarrow> pickArtwork env source w = (JNull, w)"
  by (simp add: pickArtwork_def)

lemma pickArtwork_search:
  "directUrlOf source = [] \<Longrightarrow> searchTermOf source \<noteq> [] \<Longrightarrow>
   pickArtwork env source w =
     itunesSearchArtwork (searchTermOf source) (REMOTE_COVER_COUNTRY env) (REMOTE_COVER_TIMEOUT_MS env) w"
  by (simp add: pickArtwork_def)

lemma cleanupLoop_trace:
  "cleanupLoop base keep exts w = (r, w') \<Longrightarrow> \<exists>evs. trace w' = trace w @ evs \<and> fetchesOf evs = []"
proof (induction exts arbitrary: w)
  case Nil
  then show ?case by auto
next
  case (Cons x xs)
  show ?case
  proof (cases "x = keep")
    case True
    with Cons show ?thesis by simp
  next
    case False
    note xk = False
    show ?thesis
    proof (cases "files w (base @ x) = None")
      case True
      let ?w = "w\<lparr>trace := trace w @ [Exists (base @ x)]\<rparr>"
      from Cons.prems xk True have "cleanupLoop base keep xs ?w = (r, w')"
        by (simp add: pathExists_eq Let_def)
      from Cons.IH[OF this] obtain evs where "trace w' = trace ?w @ evs" "fetchesOf evs = []" by blast
      then have "trace w' = trace w @ (Exists (base @ x) # evs) \<and> fetchesOf (Exists (base @ x) # evs) = []" by simp
      then show ?thesis by blast
    next
      case False
      note ex = False
      show ?thesis
      proof (cases "remove_fails w (base @ x)")
        case True
        with Cons.prems xk ex have
          "w' = w\<lparr>trace := trace w @ [Exists (base @ x), Remove (base @ x)]\<rparr>"
          by (auto simp: pathExists_eq remove_eq Let_def)
        then have "trace w' = trace w @ [Exists (base @ x), Remove (base @ x)] \<and> fetchesOf [Exists (base @ x), Remove (base @ x)] = []"
          by simp
        then show ?thesis by blast
      next
        case False
        let ?w = "w\<lparr>files := (files w)(base @ x := None), trace := trace w @ [Exists (base @ x), Remove (base @ x)]\<rparr>"
        from Cons.prems xk ex False have "cleanupLoop base keep xs ?w = (r, w')"
          by (auto simp: pathExists_eq remove_eq Let_def)
        from Cons.IH[OF this] obtain evs where "trace w' = trace ?w @ evs" "fetchesOf evs = []" by blast
        then have "trace w' = trace w @ (Exists (base @ x) # Remove (base @ x) # evs) \<and>
                   fetchesOf (Exists (base @ x) # Remove (base @ x) # evs) = []" by simp
        then show ?thesis by blast
      qed
    qed
  qed
qed

lemma storeArtwork_str:
  assumes "u \<noteq> []" and run: "storeArtwork env base name (JStr u) w = (r, w')"
  shows "\<exists>c evs. r = Inr c \<and> sameOracles w w' \<and> trace w' = trace w @ evs \<and> fetchesOf evs = [u] \<and>
           (c = emptyCover \<or>
            (c = hitFor base name (guessExtFromUrl u) \<and>
             (\<exists>buf j. net w u = Response True (Some buf) j \<and>
                files w' (base @ guessExtFromUrl u) = Some \<lparr>mtimeMs = now w, isFile = True, content = buf\<rparr>) \<and>
             (\<forall>e\<in>set coverExts. e \<noteq> guessExtFromUrl u \<longrightarrow> files w' (base @ e) = None)))"
proof -
  let ?ext = "guessExtFromUrl u"
  let ?p = "base @ ?ext"
  obtain r1 w1 where d: "downloadToFile u ?p (REMOTE_COVER_TIMEOUT_MS env) w = (r1, w1)"
    by (cases "downloadToFile u ?p (REMOTE_COVER_TIMEOUT_MS env) w")
  note ds = downloadToFile_spec[OF d]
  show ?thesis
  proof (cases r1)
    case (Inl e)
    with run d assms(1) have "r = Inr emptyCover" "w' = w1"
      by (auto simp: storeArtwork_def Let_def)
    moreover have "fetchesOf ([Fetch u] @ (if \<exists>b j. net w u = Response True (Some b) j then [Write ?p] else [])) = [u]"
      by simp
    ultimately show ?thesis using ds by blast
  next
    case (Inr x)
    obtain r2 w2 where c: "cleanupOldVariants base ?ext w1 = (r2, w2)"
      by (cases "cleanupOldVariants base ?ext w1")
    then have c': "cleanupLoop base ?ext coverExts w1 = (r2, w2)" by (simp add: cleanupOldVariants_def)
    note cs = cleanupLoop_spec[OF c']
    from cleanupLoop_trace[OF c'] obtain evs where evs: "trace w2 = trace w1 @ evs" "fetchesOf evs = []" by blast
    from ds Inr obtain buf j where dl: "net w u = Response True (Some buf) j" "\<not> write_fails w ?p"
      "files w1 = (files w)(?p \<mapsto> \<lparr>mtimeMs = now w, isFile = True, content = buf\<rparr>)" by auto
    have tr1: "trace w1 = trace w @ [Fetch u, Write ?p]" using ds dl by auto
    have so: "sameOracles w w2" using ds cs sameOracles_trans by blast
    have tr: "trace w2 = trace w @ ([Fetch u, Write ?p] @ evs)" "fetchesOf ([Fetch u, Write ?p] @ evs) = [u]"
      using tr1 evs by simp_all
    have keep: "files w2 ?p = files w1 ?p" using cs by auto
    show ?thesis
    proof (cases r2)
      case (Inl e)
      with run d c Inr assms(1) have "r = Inr emptyCover" "w' = w2"
        by (auto simp: storeArtwork_def Let_def)
      then show ?thesis using so tr by blast
    next
      case (Inr y)
      with run d c \<open>r1 = Inr x\<close> assms(1) have res: "r = Inr (hitFor base name ?ext)" "w' = w2"
        by (auto simp: storeArtwork_def Let_def hitFor_def)
      have others: "\<forall>e\<in>set coverExts. e \<noteq> ?ext \<longrightarrow> files w2 (base @ e) = None"
        using cs Inr by blast
      have "files w2 ?p = Some \<lparr>mtimeMs = now w, isFile = True, content = buf\<rparr>"
        using keep dl(3) by simp
      then show ?thesis using res so tr others dl(1) by blast
    qed
  qed
qed

lemma hitFor_nonempty [simp]: "hitFor base name ext \<noteq> emptyCover"
  by (simp add: hitFor_def emptyCover_def)

lemma resolve_miss:
  assumes "REMOTE_COVER_ENABLED env" "REMOTE_COVER_PROVIDER env \<noteq> ''none''"
    and "fst (cacheProbe rt env source w) = None"
  shows "resolveCoverForSource rt env source w =
           (case pickArtwork env source (w\<lparr>trace := trace w @ probeTrace w (baseNoExtOf rt source) coverExts\<rparr>) of
              (a, w2) \<Rightarrow> storeArtwork env (baseNoExtOf rt source) (dirName source) a w2)"
  using assms(1,2) cacheProbe_miss[OF assms(3)] by (simp add: resolveCoverForSource_def)

lemma newEvents_ext: "trace w' = trace w @ evs \<Longrightarrow> newEvents w w' = evs"
  by (simp add: newEvents_def)

text \<open>
  A cover returned after a cache miss is the only cached variant: the returned path is
  \<open>base @ ext\<close> for one of the three extensions, that file exists, and the files at the other
  two extensions do not.
\<close>

lemma returned_cover_is_only_variant:
  assumes res: "fst (resolveCoverForSource rt env source w) = Inr c"
    and miss: "fst (cacheProbe rt env source w) = None"
    and ne: "c \<noteq> emptyCover"
  shows "\<exists>ext\<in>set coverExts.
           c = \<lparr>coverUrl = Some (toCoverRoute (dirName source @ ext)),
                coverCachePath = Some (baseNoExtOf rt source @ ext)\<rparr> \<and>
           files (snd (resolveCoverForSource rt env source w)) (baseNoExtOf rt source @ ext) \<noteq> None \<and>
           (\<forall>e\<in>set coverExts. e \<noteq> ext \<longrightarrow>
              files (snd (resolveCoverForSource rt env source w)) (baseNoExtOf rt source @ e) = None)"
proof -
  let ?base = "baseNoExtOf rt source"
  let ?w1 = "w\<lparr>trace := trace w @ probeTrace w ?base coverExts\<rparr>"
  have en: "REMOTE_COVER_ENABLED env" "REMOTE_COVER_PROVIDER env \<noteq> ''none''"
    using res ne by (auto simp: resolveCoverForSource_def split: if_splits)
  obtain a w2 where pick: "pickArtwork env source ?w1 = (a, w2)"
    by (cases "pickArtwork env source ?w1")
  have eq: "resolveCoverForSource rt env source w = storeArtwork env ?base (dirName source) a w2"
    using resolve_miss[OF en miss] pick by simp
  obtain r w' where st: "storeArtwork env ?base (dirName source) a w2 = (r, w')"
    by (cases "storeArtwork env ?base (dirName source) a w2")
  have r: "r = Inr c" using res eq st by simp
  have "\<exists>u. a = JStr u \<and> u \<noteq> []"
    using st r ne by (cases a) (auto simp: storeArtwork_def split: if_splits)
  then obtain u where u: "a = JStr u" "u \<noteq> []" by blast
  from storeArtwork_str[OF u(2) st[unfolded u(1)]] r ne
  have "c = hitFor ?base (dirName source) (guessExtFromUrl u)"
    "files w' (?base @ guessExtFromUrl u) \<noteq> None"
    "\<forall>e\<in>set coverExts. e \<noteq> guessExtFromUrl u \<longrightarrow> files w' (?base @ e) = None"
    by auto
  then show ?thesis using guessExt_in[of u] eq st by (auto simp: hitFor_def)
qed

lemma isFresh_fst:
  "fst (isFresh p T w) =
     (\<exists>st. files w p = Some st \<and> \<not> stat_fails w p \<and> 0 \<le> now w - mtimeMs st \<and>
           js_lt (Fin (now w - mtimeMs st)) (js_times_pos T 86400000))"
  by (auto simp: isFresh_eq cachedFresh_def freshAge_def msPerDay_def split: option.splits)

lemma resolver_returns_hit:
  assumes en: "REMOTE_COVER_ENABLED env" "REMOTE_COVER_PROVIDER env \<noteq> ''none''"
    and hit: "fst (cacheProbe rt env source w) = Some hit"
  shows "resolveCoverForSource rt env source w = (Inr hit, snd (cacheProbe rt env source w))"
proof -
  obtain w1 where c: "cacheProbe rt env source w = (Some hit, w1)"
    using hit by (cases "cacheProbe rt env source w") simp
  show ?thesis unfolding c using en by (simp add: resolveCoverForSource_def c)
qed

lemma cacheProbe_result:
  "(fst (cacheProbe rt env source w) = None \<and>
      (\<forall>e\<in>set coverExts. \<not> cachedFresh w (baseNoExtOf rt source @ e) (REMOTE_COVER_TTL_DAYS env)) \<and>
      newEvents w (snd (cacheProbe rt env source w)) = probeTrace w (baseNoExtOf rt source) coverExts) \<or>
   (\<exists>pre e post. coverExts = pre @ e # post \<and>
      (\<forall>x\<in>set pre. \<not> cachedFresh w (baseNoExtOf rt source @ x) (REMOTE_COVER_TTL_DAYS env)) \<and>
      cachedFresh w (baseNoExtOf rt source @ e) (REMOTE_COVER_TTL_DAYS env) \<and>
      fst (cacheProbe rt env source w) =
        Some \<lparr>coverUrl = Some (toCoverRoute (dirName source @ e)),
               coverCachePath = Some (baseNoExtOf rt source @ e)\<rparr> \<and>
      newEvents w (snd (cacheProbe rt env source w)) = probeTrace w (baseNoExtOf rt source) (pre @ [e]) \<and>
      (REMOTE_COVER_ENABLED env \<and> REMOTE_COVER_PROVIDER env \<noteq> ''none'' \<longrightarrow>
         fst (resolveCoverForSource rt env source w) =
           Inr \<lparr>coverUrl = Some (toCoverRoute (dirName source @ e)),
                 coverCachePath = Some (baseNoExtOf rt source @ e)\<rparr> \<and>
         newEvents w (snd (resolveCoverForSource rt env source w)) =
           probeTrace w (baseNoExtOf rt source) (pre @ [e])))"
proof -
  obtain r w' where run: "probeLoop (baseNoExtOf rt source) (dirName source) (REMOTE_COVER_TTL_DAYS env) coverExts w = (r, w')"
    by (cases "probeLoop (baseNoExtOf rt source) (dirName source) (REMOTE_COVER_TTL_DAYS env) coverExts w")
  then have c: "cacheProbe rt env source w = (r, w')" by (simp add: cacheProbe_def)
  from probeLoop_result[OF run] show ?thesis
  proof
    assume "r = None \<and> (\<forall>e\<in>set coverExts. \<not> cachedFresh w (baseNoExtOf rt source @ e) (REMOTE_COVER_TTL_DAYS env)) \<and>
        w' = w\<lparr>trace := trace w @ probeTrace w (baseNoExtOf rt source) coverExts\<rparr>"
    then show ?thesis using c by (simp add: newEvents_def)
  next
    assume "\<exists>pre e post. coverExts = pre @ e # post \<and> (\<forall>x\<in>set pre. \<not> cachedFresh w (baseNoExtOf rt source @ x) (REMOTE_COVER_TTL_DAYS env)) \<and>
        cachedFresh w (baseNoExtOf rt source @ e) (REMOTE_COVER_TTL_DAYS env) \<and> r = Some (hitFor (baseNoExtOf rt source) (dirName source) e) \<and>
        w' = w\<lparr>trace := trace w @ probeTrace w (baseNoExtOf rt source) (pre @ [e])\<rparr>"
    then obtain pre e post where h: "coverExts = pre @ e # post"
      "\<forall>x\<in>set pre. \<not> cachedFresh w (baseNoExtOf rt source @ x) (REMOTE_COVER_TTL_DAYS env)"
      "cachedFresh w (baseNoExtOf rt source @ e) (REMOTE_COVER_TTL_DAYS env)"
      "r = Some (hitFor (baseNoExtOf rt source) (dirName source) e)"
      "w' = w\<lparr>trace := trace w @ probeTrace w (baseNoExtOf rt source) (pre @ [e])\<rparr>" by blast
    have "newEvents w (snd (cacheProbe rt env source w)) = probeTrace w (baseNoExtOf rt source) (pre @ [e])"
      using c h(5) by (simp add: newEvents_def)
    moreover have "fst (cacheProbe rt env source w) =
        Some \<lparr>coverUrl = Some (toCoverRoute (dirName source @ e)),
               coverCachePath = Some (baseNoExtOf rt source @ e)\<rparr>"
      using c h(4) by (simp add: hitFor_def)
    moreover have "REMOTE_COVER_ENABLED env \<and> REMOTE_COVER_PROVIDER env \<noteq> ''none'' \<longrightarrow>
         fst (resolveCoverForSource rt env source w) =
           Inr \<lparr>coverUrl = Some (toCoverRoute (dirName source @ e)),
                 coverCachePath = Some (baseNoExtOf rt source @ e)\<rparr> \<and>
         newEvents w (snd (resolveCoverForSource rt env source w)) =
           probeTrace w (baseNoExtOf rt source) (pre @ [e])"
    proof
      assume en: "REMOTE_COVER_ENABLED env \<and> REMOTE_COVER_PROVIDER env \<noteq> ''none''"
      have "fst (cacheProbe rt env source w) = Some (hitFor (baseNoExtOf rt source) (dirName source) e)"
        using c h(4) by simp
      then have "resolveCoverForSource rt env source w =
          (Inr (hitFor (baseNoExtOf rt source) (dirName source) e), snd (cacheProbe rt env source w))"
        using en by (intro resolver_returns_hit) simp_all
      then show "fst (resolveCoverForSource rt env source w) =
           Inr \<lparr>coverUrl = Some (toCoverRoute (dirName source @ e)),
                 coverCachePath = Some (baseNoExtOf rt source @ e)\<rparr> \<and>
         newEvents w (snd (resolveCoverForSource rt env source w)) =
           probeTrace w (baseNoExtOf rt source) (pre @ [e])"
        using c h(5) by (simp add: hitFor_def newEvents_def)
    qed
    ultimately show ?thesis using h(1,2,3) by blast
  qed
qed

lemma freshAge_nan: "\<not> freshAge a NaN"
  by (simp add: freshAge_def)

lemma cachedFresh_tests: "cachedFresh w p T = (fst (pathExists p w) \<and> fst (isFresh p T w))"
  by (auto simp: pathExists_eq isFresh_eq dest: cachedFresh_exists)

text \<open>
  C2. The freshness check is true exactly when \<^verbatim>\<open>stat\<close> succeeds and the age \<open>a\<close> of the file
  satisfies \<open>0 \<le> a < T * 86400000\<close> (for a finite \<open>T\<close>; with NaN nothing is fresh); an
  age at or beyond the bound, or a negative one, is not fresh. The probe goes through
  \<^verbatim>\<open>.jpg\<close>, \<^verbatim>\<open>.png\<close>, \<^verbatim>\<open>.webp\<close> in this order: either none is fresh, or it returns route and path
  of the first fresh one, and the calls it made concern that extension and the ones before
  it only. With remote covers enabled, \<^verbatim>\<open>resolveCoverForSource\<close> returns exactly this hit and
  makes no further call.
\<close>
theorem cache_freshness_and_probe:
  "fst (isFresh p T w) =
     (\<exists>st. files w p = Some st \<and> \<not> stat_fails w p \<and> 0 \<le> now w - mtimeMs st \<and>
           js_lt (Fin (now w - mtimeMs st)) (js_times_pos T 86400000)) \<and>
   freshAge a (Fin t) = (0 \<le> a \<and> a < t * 86400000) \<and>
   \<not> freshAge a NaN \<and>
   cachedFresh w p T = (fst (pathExists p w) \<and> fst (isFresh p T w)) \<and>
   coverExts = [''.jpg'', ''.png'', ''.webp''] \<and>
   ((fst (cacheProbe rt env source w) = None \<and>
      (\<forall>e\<in>set coverExts. \<not> cachedFresh w (baseNoExtOf rt source @ e) (REMOTE_COVER_TTL_DAYS env)) \<and>
      newEvents w (snd (cacheProbe rt env source w)) = probeTrace w (baseNoExtOf rt source) coverExts) \<or>
    (\<exists>pre e post. coverExts = pre @ e # post \<and>
      (\<forall>x\<in>set pre. \<not> cachedFresh w (baseNoExtOf rt source @ x) (REMOTE_COVER_TTL_DAYS env)) \<and>
      cachedFresh w (baseNoExtOf rt source @ e) (REMOTE_COVER_TTL_DAYS env) \<and>
      fst (cacheProbe rt env source w) =
        Some \<lparr>coverUrl = Some (toCoverRoute (dirName source @ e)),
               coverCachePath = Some (baseNoExtOf rt source @ e)\<rparr> \<and>
      newEvents w (snd (cacheProbe rt env source w)) = probeTrace w (baseNoExtOf rt source) (pre @ [e]) \<and>
      (REMOTE_COVER_ENABLED env \<and> REMOTE_COVER_PROVIDER env \<noteq> ''none'' \<longrightarrow>
         fst (resolveCoverForSource rt env source w) =
           Inr \<lparr>coverUrl = Some (toCoverRoute (dirName source @ e)),
                 coverCachePath = Some (baseNoExtOf rt source @ e)\<rparr> \<and>
         newEvents w (snd (resolveCoverForSource rt env source w)) =
           probeTrace w (baseNoExtOf rt source) (pre @ [e]))))"
  using isFresh_fst [of p T w] freshAge_fin [of a t] freshAge_nan [of a]
    cachedFresh_tests [of w p T] cacheProbe_result [of rt env source w]
  by (simp add: coverExts_def)

theorem cache_freshness_and_probe_witness:
  "fst (isFresh ''/app/.covers/show.png'' (Fin 30) probeWorld) \<and>
   \<not> fst (isFresh ''/app/.covers/show.jpg'' (Fin 30) probeWorld) \<and>
   freshAge (30 * 86400000 - 1) (Fin 30) \<and> \<not> freshAge (30 * 86400000) (Fin 30) \<and>
   \<not> freshAge (- 1) (Fin 30) \<and> \<not> freshAge 0 NaN \<and>
   fst (cacheProbe exampleRuntime defaultEnv (showWith None None) probeWorld) =
     Some \<lparr>coverUrl = Some ''/covers/show.png'', coverCachePath = Some ''/app/.covers/show.png''\<rparr> \<and>
   newEvents probeWorld (snd (cacheProbe exampleRuntime defaultEnv (showWith None None) probeWorld)) =
     [Exists ''/app/.covers/show.jpg'', Stat ''/app/.covers/show.jpg'',
      Exists ''/app/.covers/show.png'', Stat ''/app/.covers/show.png''] \<and>
   fst (resolveCoverForSource exampleRuntime defaultEnv (showWith None None) probeWorld) =
     Inr \<lparr>coverUrl = Some ''/covers/show.png'', coverCachePath = Some ''/app/.covers/show.png''\<rparr> \<and>
   newEvents probeWorld (snd (resolveCoverForSource exampleRuntime defaultEnv (showWith None None) probeWorld)) =
     [Exists ''/app/.covers/show.jpg'', Stat ''/app/.covers/show.jpg'',
      Exists ''/app/.covers/show.png'', Stat ''/app/.covers/show.png''] \<and>
   (fst (isFresh ''/app/.covers/show.png'' (Fin 30) probeWorld) =
     (\<exists>st. files probeWorld ''/app/.covers/show.png'' = Some st \<and> \<not> stat_fails probeWorld ''/app/.covers/show.png'' \<and> 0 \<le> now probeWorld - mtimeMs st \<and>
           js_lt (Fin (now probeWorld - mtimeMs st)) (js_times_pos (Fin 30) 86400000)) \<and>
   freshAge 86400000 (Fin 30) = (0 \<le> (86400000 :: rat) \<and> (86400000 :: rat) < 30 * 86400000) \<and>
   \<not> freshAge 86400000 NaN \<and>
   cachedFresh probeWorld ''/app/.covers/show.png'' (Fin 30) =
     (fst (pathExists ''/app/.covers/show.png'' probeWorld) \<and>
      fst (isFresh ''/app/.covers/show.png'' (Fin 30) probeWorld)) \<and>
   coverExts = [''.jpg'', ''.png'', ''.webp''] \<and>
   ((fst (cacheProbe exampleRuntime defaultEnv (showWith None None) probeWorld) = None \<and>
      (\<forall>e\<in>set coverExts. \<not> cachedFresh probeWorld (baseNoExtOf exampleRuntime (showWith None None) @ e) (REMOTE_COVER_TTL_DAYS defaultEnv)) \<and>
      newEvents probeWorld (snd (cacheProbe exampleRuntime defaultEnv (showWith None None) probeWorld)) = probeTrace probeWorld (baseNoExtOf exampleRuntime (showWith None None)) coverExts) \<or>
    (\<exists>pre e post. coverExts = pre @ e # post \<and>
      (\<forall>x\<in>set pre. \<not> cachedFresh probeWorld (baseNoExtOf exampleRuntime (showWith None None) @ x) (REMOTE_COVER_TTL_DAYS defaultEnv)) \<and>
      cachedFresh probeWorld (baseNoExtOf exampleRuntime (showWith None None) @ e) (REMOTE_COVER_TTL_DAYS defaultEnv) \<and>
      fst (cacheProbe exampleRuntime defaultEnv (showWith None None) probeWorld) =
        Some \<lparr>coverUrl = Some (toCoverRoute (dirName (showWith None None) @ e)),
               coverCachePath = Some (baseNoExtOf exampleRuntime (showWith None None) @ e)\<rparr> \<and>
      newEvents probeWorld (snd (cacheProbe exampleRuntime defaultEnv (showWith None None) probeWorld)) = probeTrace probeWorld (baseNoExtOf exampleRuntime (showWith None None)) (pre @ [e]) \<and>
      (REMOTE_COVER_ENABLED defaultEnv \<and> REMOTE_COVER_PROVIDER defaultEnv \<noteq> ''none'' \<longrightarrow>
         fst (resolveCoverForSource exampleRuntime defaultEnv (showWith None None) probeWorld) =
           Inr \<lparr>coverUrl = Some (toCoverRoute (dirName (showWith None None) @ e)),
                 coverCachePath = Some (baseNoExtOf exampleRuntime (showWith None None) @ e)\<rparr> \<and>
         newEvents probeWorld (snd (resolveCoverForSource exampleRuntime defaultEnv (showWith None None) probeWorld)) =
           probeTrace probeWorld (baseNoExtOf exampleRuntime (showWith None None)) (pre @ [e])))))"
proof -
  have e1: "fst (isFresh ''/app/.covers/show.png'' (Fin 30) probeWorld)" by code_simp
  have e2: "\<not> fst (isFresh ''/app/.covers/show.jpg'' (Fin 30) probeWorld)" by code_simp
  have e3: "freshAge (30 * 86400000 - 1) (Fin 30)" by code_simp
  have e4: "\<not> freshAge (30 * 86400000) (Fin 30)" by code_simp
  have e5: "\<not> freshAge (- 1) (Fin 30)" by code_simp
  have e6: "\<not> freshAge 0 NaN" by code_simp
  have e7: "fst (cacheProbe exampleRuntime defaultEnv (showWith None None) probeWorld) =
     Some \<lparr>coverUrl = Some ''/covers/show.png'', coverCachePath = Some ''/app/.covers/show.png''\<rparr>"
    by code_simp
  have e8: "newEvents probeWorld (snd (cacheProbe exampleRuntime defaultEnv (showWith None None) probeWorld)) =
     [Exists ''/app/.covers/show.jpg'', Stat ''/app/.covers/show.jpg'',
      Exists ''/app/.covers/show.png'', Stat ''/app/.covers/show.png'']"
    by code_simp
  have e9: "fst (resolveCoverForSource exampleRuntime defaultEnv (showWith None None) probeWorld) =
     Inr \<lparr>coverUrl = Some ''/covers/show.png'', coverCachePath = Some ''/app/.covers/show.png''\<rparr>"
    by code_simp
  have e10: "newEvents probeWorld (snd (resolveCoverForSource exampleRuntime defaultEnv (showWith None None) probeWorld)) =
     [Exists ''/app/.covers/show.jpg'', Stat ''/app/.covers/show.jpg'',
      Exists ''/app/.covers/show.png'', Stat ''/app/.covers/show.png'']"
    by code_simp
  show ?thesis
    by (rule conjI [OF e1 conjI [OF e2 conjI [OF e3 conjI [OF e4 conjI [OF e5 conjI [OF e6 conjI [OF e7 conjI [OF e8 conjI [OF e9 conjI [OF e10 cache_freshness_and_probe [where p = "''/app/.covers/show.png''" and T = "Fin 30"
        and w = probeWorld and a = 86400000 and t = 30 and rt = exampleRuntime
        and env = defaultEnv and source = "showWith None None"]]]]]]]]]]])
qed

lemma itunesSearchArtwork_fst_trace:
  "fst (itunesSearchArtwork term country t (w\<lparr>trace := x\<rparr>)) = fst (itunesSearchArtwork term country t w)"
  by (simp add: itunesSearchArtwork_def fetch_eq Let_def split: response.splits option.splits list.splits jsval.splits)

lemma pickArtwork_fst_trace:
  "fst (pickArtwork env source (w\<lparr>trace := x\<rparr>)) = fst (pickArtwork env source w)"
  by (simp add: pickArtwork_def Let_def itunesSearchArtwork_fst_trace)

lemma pickArtwork_snd:
  "snd (pickArtwork env source w) =
     w\<lparr>trace := trace w @
         (if directUrlOf source = [] \<and> searchTermOf source \<noteq> []
          then [Fetch (itunesSearchUrl (searchTermOf source) (REMOTE_COVER_COUNTRY env))] else [])\<rparr>"
  by (simp add: pickArtwork_def Let_def itunesSearchArtwork_world)

lemma storeArtwork_falsy: "\<not> truthy a \<Longrightarrow> storeArtwork env base name a w = (Inr emptyCover, w)"
  by (simp add: storeArtwork_def)

lemma storeArtwork_trace:
  "storeArtwork env base name a w = (r, w') \<Longrightarrow> \<exists>evs. trace w' = trace w @ evs"
proof (cases "\<exists>u. a = JStr u \<and> u \<noteq> []")
  case True
  assume run: "storeArtwork env base name a w = (r, w')"
  from True obtain u where u: "a = JStr u" "u \<noteq> []" by blast
  from storeArtwork_str[OF u(2) run[unfolded u(1)]] show ?thesis by blast
next
  case False
  assume run: "storeArtwork env base name a w = (r, w')"
  from False run have "w' = w" by (cases a) (auto simp: storeArtwork_def split: if_splits)
  then show ?thesis by simp
qed

lemma storeArtwork_stuck:
  assumes u: "u \<noteq> []"
    and dl: "net w u = Response True (Some buf) j" "\<not> write_fails w (base @ guessExtFromUrl u)"
    and stuck: "e \<in> set coverExts" "e \<noteq> guessExtFromUrl u" "files w (base @ e) \<noteq> None"
      "remove_fails w (base @ e)"
  shows "fst (storeArtwork env base name (JStr u) w) = Inr emptyCover \<and>
         files (snd (storeArtwork env base name (JStr u) w)) (base @ guessExtFromUrl u) =
           Some \<lparr>mtimeMs = now w, isFile = True, content = buf\<rparr> \<and>
         files (snd (storeArtwork env base name (JStr u) w)) (base @ e) = files w (base @ e)"
proof -
  let ?ext = "guessExtFromUrl u"
  let ?p = "base @ ?ext"
  let ?new = "\<lparr>mtimeMs = now w, isFile = True, content = buf\<rparr>"
  obtain r1 w1 where d: "downloadToFile u ?p (REMOTE_COVER_TIMEOUT_MS env) w = (r1, w1)"
    by (cases "downloadToFile u ?p (REMOTE_COVER_TIMEOUT_MS env) w")
  have r1: "r1 = Inr ()" and f1: "files w1 = (files w)(?p \<mapsto> ?new)"
    using d dl by (auto simp: downloadToFile_def fetch_eq writeFile_eq)
  have o1: "sameOracles w w1" using downloadToFile_spec[OF d] by simp
  obtain r2 w2 where c: "cleanupLoop base ?ext coverExts w1 = (r2, w2)"
    by (cases "cleanupLoop base ?ext coverExts w1")
  note cs = cleanupLoop_spec[OF c]
  have pe: "base @ e \<noteq> ?p" using stuck(2) by simp
  have "files w1 (base @ e) \<noteq> None" using f1 pe stuck(3) by simp
  moreover have rf: "remove_fails w1 (base @ e)" using o1 stuck(4) by (simp add: sameOracles_def)
  ultimately have "\<not> (\<exists>x. r2 = Inr x)" using cs stuck(1,2) by blast
  then obtain err where r2: "r2 = Inl err" by (cases r2) auto
  have res: "storeArtwork env base name (JStr u) w = (Inr emptyCover, w2)"
    using u d r1 c r2 by (simp add: storeArtwork_def Let_def cleanupOldVariants_def)
  have k1: "files w2 ?p = files w1 ?p" using cs by auto
  have k2: "files w2 (base @ e) = files w1 (base @ e)" using cs rf by auto
  show ?thesis using res k1 k2 f1 pe by simp
qed

text \<open>
  C3, as stated, fails: the download and the write succeed, the stale \<^verbatim>\<open>show.png\<close> cannot
  be deleted, and the resolver returns the empty result, not the new route. Both files are
  in the cache afterwards.
\<close>
theorem failed_delete_counterexample:
  "fst (resolveCoverForSource exampleRuntime defaultEnv
          (showWith (Some ''http://img.example/c.jpg'') None) stuckWorld) = Inr emptyCover \<and>
   files (snd (resolveCoverForSource exampleRuntime defaultEnv
          (showWith (Some ''http://img.example/c.jpg'') None) stuckWorld)) ''/app/.covers/show.jpg'' =
     Some \<lparr>mtimeMs = 8640000000, isFile = True, content = ''JPG''\<rparr> \<and>
   files (snd (resolveCoverForSource exampleRuntime defaultEnv
          (showWith (Some ''http://img.example/c.jpg'') None) stuckWorld)) ''/app/.covers/show.png'' =
     Some staleNode"
  by code_simp

text \<open>
  C3, amended. If the download and the write succeed and a stale variant exists whose
  deletion fails, no exception leaves the resolver, but it returns the empty result; the
  file just written stays, and so does the variant that could not be deleted.
\<close>
theorem failed_delete_gives_empty:
  assumes en: "REMOTE_COVER_ENABLED env" "REMOTE_COVER_PROVIDER env \<noteq> ''none''"
    and miss: "fst (cacheProbe rt env source w) = None"
    and pick: "fst (pickArtwork env source w) = JStr u" "u \<noteq> []"
    and dl: "net w u = Response True (Some buf) j"
      "\<not> write_fails w (baseNoExtOf rt source @ guessExtFromUrl u)"
    and stuck: "e \<in> set coverExts" "e \<noteq> guessExtFromUrl u"
      "files w (baseNoExtOf rt source @ e) \<noteq> None" "remove_fails w (baseNoExtOf rt source @ e)"
  shows "fst (resolveCoverForSource rt env source w) = Inr emptyCover \<and>
         files (snd (resolveCoverForSource rt env source w)) (baseNoExtOf rt source @ guessExtFromUrl u) =
           Some \<lparr>mtimeMs = now w, isFile = True, content = buf\<rparr> \<and>
         files (snd (resolveCoverForSource rt env source w)) (baseNoExtOf rt source @ e) =
           files w (baseNoExtOf rt source @ e)"
proof -
  let ?base = "baseNoExtOf rt source"
  let ?w1 = "w\<lparr>trace := trace w @ probeTrace w ?base coverExts\<rparr>"
  obtain a w2 where pk: "pickArtwork env source ?w1 = (a, w2)"
    by (cases "pickArtwork env source ?w1")
  have "fst (pickArtwork env source ?w1) = fst (pickArtwork env source w)"
    by (rule pickArtwork_fst_trace)
  then have a: "a = JStr u" using pk pick(1) by simp
  have w2: "w2 = ?w1\<lparr>trace := trace ?w1 @
         (if directUrlOf source = [] \<and> searchTermOf source \<noteq> []
          then [Fetch (itunesSearchUrl (searchTermOf source) (REMOTE_COVER_COUNTRY env))] else [])\<rparr>"
    using pk pickArtwork_snd[of env source ?w1] by simp
  have eq: "resolveCoverForSource rt env source w = storeArtwork env ?base (dirName source) (JStr u) w2"
    using resolve_miss[OF en miss] pk a by simp
  have f: "files w2 = files w" "net w2 = net w" "write_fails w2 = write_fails w"
    "remove_fails w2 = remove_fails w" "now w2 = now w"
    by (simp_all add: w2)
  have "fst (storeArtwork env ?base (dirName source) (JStr u) w2) = Inr emptyCover \<and>
         files (snd (storeArtwork env ?base (dirName source) (JStr u) w2)) (?base @ guessExtFromUrl u) =
           Some \<lparr>mtimeMs = now w2, isFile = True, content = buf\<rparr> \<and>
         files (snd (storeArtwork env ?base (dirName source) (JStr u) w2)) (?base @ e) = files w2 (?base @ e)"
    by (rule storeArtwork_stuck) (use pick(2) dl stuck f in simp_all)
  then show ?thesis using eq f by simp
qed

theorem failed_delete_gives_empty_witness:
  "fst (resolveCoverForSource exampleRuntime defaultEnv
          (showWith (Some ''http://img.example/c.jpg'') None) stuckWorld) = Inr emptyCover \<and>
   files (snd (resolveCoverForSource exampleRuntime defaultEnv
          (showWith (Some ''http://img.example/c.jpg'') None) stuckWorld)) ''/app/.covers/show.jpg'' =
     Some \<lparr>mtimeMs = now stuckWorld, isFile = True, content = ''JPG''\<rparr> \<and>
   files (snd (resolveCoverForSource exampleRuntime defaultEnv
          (showWith (Some ''http://img.example/c.jpg'') None) stuckWorld)) ''/app/.covers/show.png'' =
     files stuckWorld ''/app/.covers/show.png''"
proof -
  let ?src = "showWith (Some ''http://img.example/c.jpg'') None"
  have h1: "REMOTE_COVER_ENABLED defaultEnv" by code_simp
  have h2: "REMOTE_COVER_PROVIDER defaultEnv \<noteq> ''none''" by code_simp
  have h3: "fst (cacheProbe exampleRuntime defaultEnv ?src stuckWorld) = None" by code_simp
  have h4: "fst (pickArtwork defaultEnv ?src stuckWorld) = JStr ''http://img.example/c.jpg''" by code_simp
  have h5: "''http://img.example/c.jpg'' \<noteq> []" by simp
  have h6: "net stuckWorld ''http://img.example/c.jpg'' = Response True (Some ''JPG'') None" by code_simp
  have g: "guessExtFromUrl ''http://img.example/c.jpg'' = ''.jpg''" by code_simp
  have b: "baseNoExtOf exampleRuntime ?src = ''/app/.covers/show''" by code_simp
  have h7: "\<not> write_fails stuckWorld (baseNoExtOf exampleRuntime ?src @ guessExtFromUrl ''http://img.example/c.jpg'')"
    by code_simp
  have h8: "''.png'' \<in> set coverExts" by code_simp
  have h9: "''.png'' \<noteq> guessExtFromUrl ''http://img.example/c.jpg''" by code_simp
  have h10: "files stuckWorld (baseNoExtOf exampleRuntime ?src @ ''.png'') \<noteq> None" by code_simp
  have h11: "remove_fails stuckWorld (baseNoExtOf exampleRuntime ?src @ ''.png'')" by code_simp
  show ?thesis
    using failed_delete_gives_empty [OF h1 h2 h3 h4 h5 h6 h7 h8 h9 h10 h11] by (simp add: g b)
qed

lemma trim_Nil [simp]: "trim [] = []" by (simp add: trim_def)

lemma searchTerm_agrees:
  assumes "orEmpty (coverSearchTerm (config source)) = [] \<or> trim (orEmpty (coverSearchTerm (config source))) \<noteq> []"
    and "orEmpty (coverSearchTerm (config source)) \<noteq> [] \<or> title (config source) = [] \<or> trim (title (config source)) \<noteq> []"
  shows "searchTermOf source = specSearchTerm source"
  using assms by (auto simp: searchTermOf_def specSearchTerm_def Let_def)

lemma resolve_events:
  assumes en: "REMOTE_COVER_ENABLED env" "REMOTE_COVER_PROVIDER env \<noteq> ''none''"
    and miss: "fst (cacheProbe rt env source w) = None"
  shows "resolveCoverForSource rt env source w =
           storeArtwork env (baseNoExtOf rt source) (dirName source) (fst (pickArtwork env source w))
             (w\<lparr>trace := trace w @ probeTrace w (baseNoExtOf rt source) coverExts @
                (if directUrlOf source = [] \<and> searchTermOf source \<noteq> []
                 then [Fetch (itunesSearchUrl (searchTermOf source) (REMOTE_COVER_COUNTRY env))] else [])\<rparr>)"
proof -
  let ?base = "baseNoExtOf rt source"
  let ?w1 = "w\<lparr>trace := trace w @ probeTrace w ?base coverExts\<rparr>"
  have f: "fst (pickArtwork env source ?w1) = fst (pickArtwork env source w)"
    by (rule pickArtwork_fst_trace)
  have s: "snd (pickArtwork env source ?w1) = ?w1\<lparr>trace := trace ?w1 @
         (if directUrlOf source = [] \<and> searchTermOf source \<noteq> []
          then [Fetch (itunesSearchUrl (searchTermOf source) (REMOTE_COVER_COUNTRY env))] else [])\<rparr>"
    by (rule pickArtwork_snd)
  have "resolveCoverForSource rt env source w =
          storeArtwork env ?base (dirName source) (fst (pickArtwork env source ?w1)) (snd (pickArtwork env source ?w1))"
    using resolve_miss[OF en miss] by (simp add: case_prod_beta)
  then show ?thesis unfolding f s by simp
qed

lemma resolve_blank_term:
  assumes en: "REMOTE_COVER_ENABLED env" "REMOTE_COVER_PROVIDER env \<noteq> ''none''"
    and miss: "fst (cacheProbe rt env source w) = None"
    and nodirect: "directUrlOf source = []" and blank: "searchTermOf source = []"
  shows "fst (resolveCoverForSource rt env source w) = Inr emptyCover \<and>
         fetchesOf (newEvents w (snd (resolveCoverForSource rt env source w))) = []"
proof -
  have a: "fst (pickArtwork env source w) = JNull"
    using nodirect blank by (simp add: pickArtwork_noterm)
  show ?thesis
    unfolding resolve_events[OF en miss] a
    using blank by (simp add: storeArtwork_falsy newEvents_def)
qed

lemma resolve_search_first:
  assumes en: "REMOTE_COVER_ENABLED env" "REMOTE_COVER_PROVIDER env \<noteq> ''none''"
    and miss: "fst (cacheProbe rt env source w) = None"
    and nodirect: "directUrlOf source = []" and tm: "searchTermOf source \<noteq> []"
  shows "take 1 (fetchesOf (newEvents w (snd (resolveCoverForSource rt env source w)))) =
           [itunesSearchUrl (searchTermOf source) (REMOTE_COVER_COUNTRY env)]"
proof -
  let ?w2 = "w\<lparr>trace := trace w @ probeTrace w (baseNoExtOf rt source) coverExts @
       [Fetch (itunesSearchUrl (searchTermOf source) (REMOTE_COVER_COUNTRY env))]\<rparr>"
  let ?a = "fst (pickArtwork env source w)"
  have eq: "resolveCoverForSource rt env source w =
              storeArtwork env (baseNoExtOf rt source) (dirName source) ?a ?w2"
    using resolve_events[OF en miss] nodirect tm by simp
  obtain r w' where st: "storeArtwork env (baseNoExtOf rt source) (dirName source) ?a ?w2 = (r, w')"
    by (cases "storeArtwork env (baseNoExtOf rt source) (dirName source) ?a ?w2")
  from storeArtwork_trace[OF st] obtain evs where "trace w' = trace ?w2 @ evs" by blast
  then have "trace w' = trace w @ (probeTrace w (baseNoExtOf rt source) coverExts @
       [Fetch (itunesSearchUrl (searchTermOf source) (REMOTE_COVER_COUNTRY env))] @ evs)"
    by simp
  then have "newEvents w w' = probeTrace w (baseNoExtOf rt source) coverExts @
       [Fetch (itunesSearchUrl (searchTermOf source) (REMOTE_COVER_COUNTRY env))] @ evs"
    by (rule newEvents_ext)
  then show ?thesis using eq st by simp
qed

text \<open>
  C4, as stated, fails: with a configured search term of one space and the title
  \<^verbatim>\<open>My Show\<close>, the claim's term is the title, while the code's term is empty, so that no
  request is made and the result is empty. Without the blank term the same world yields
  a search for the title and a download.
\<close>
theorem blank_search_term_counterexample:
  "specSearchTerm (showWith None (Some '' '')) = ''My Show'' \<and>
   searchTermOf (showWith None (Some '' '')) = [] \<and>
   fst (resolveCoverForSource exampleRuntime defaultEnv (showWith None (Some '' '')) searchWorld) =
     Inr emptyCover \<and>
   fetchesOf (trace (snd (resolveCoverForSource exampleRuntime defaultEnv (showWith None (Some '' ''))
     searchWorld))) = [] \<and>
   fetchesOf (trace (snd (resolveCoverForSource exampleRuntime defaultEnv (showWith None None)
     searchWorld))) =
     [''https://itunes.apple.com/search?term=My+Show&entity=podcast&limit=3&country=cn'',
      ''http://img.example/a.jpg'']"
  by code_simp

text \<open>
  C4, amended. Without a fresh cached cover and without an explicit URL, the search term is
  the first of configured term, title and folder name that is a non-empty string, trimmed
  afterwards. If it is non-empty after trimming, the first request is the search for it;
  if it is empty, no request is made and the result is empty. It is the claim's term
  whenever the chosen candidate is not made of white space only.
\<close>
theorem search_term_choice:
  assumes en: "REMOTE_COVER_ENABLED env" "REMOTE_COVER_PROVIDER env \<noteq> ''none''"
    and miss: "fst (cacheProbe rt env source w) = None"
    and nodirect: "directUrlOf source = []"
  shows "searchTermOf source =
           trim (if orEmpty (coverSearchTerm (config source)) \<noteq> [] then orEmpty (coverSearchTerm (config source))
                 else if title (config source) \<noteq> [] then title (config source)
                 else dirName source) \<and>
         (searchTermOf source \<noteq> [] \<longrightarrow>
            take 1 (fetchesOf (newEvents w (snd (resolveCoverForSource rt env source w)))) =
              [itunesSearchUrl (searchTermOf source) (REMOTE_COVER_COUNTRY env)]) \<and>
         (searchTermOf source = [] \<longrightarrow>
            fst (resolveCoverForSource rt env source w) = Inr emptyCover \<and>
            fetchesOf (newEvents w (snd (resolveCoverForSource rt env source w))) = []) \<and>
         ((orEmpty (coverSearchTerm (config source)) = [] \<or>
             trim (orEmpty (coverSearchTerm (config source))) \<noteq> []) \<and>
          (orEmpty (coverSearchTerm (config source)) \<noteq> [] \<or> title (config source) = [] \<or>
             trim (title (config source)) \<noteq> []) \<longrightarrow>
            searchTermOf source = specSearchTerm source)"
  using resolve_search_first [OF en miss nodirect] resolve_blank_term [OF en miss nodirect]
    searchTerm_agrees [of source]
  by (simp add: searchTermOf_def Let_def)

theorem search_term_choice_witness:
  "REMOTE_COVER_ENABLED defaultEnv \<and> REMOTE_COVER_PROVIDER defaultEnv \<noteq> ''none'' \<and>
   fst (cacheProbe exampleRuntime defaultEnv (showWith None None) searchWorld) = None \<and>
   directUrlOf (showWith None None) = [] \<and>
   searchTermOf (showWith None None) = ''My Show'' \<and>
   take 1 (fetchesOf (newEvents searchWorld
       (snd (resolveCoverForSource exampleRuntime defaultEnv (showWith None None) searchWorld)))) =
     [itunesSearchUrl (searchTermOf (showWith None None)) (REMOTE_COVER_COUNTRY defaultEnv)] \<and>
   searchTermOf (showWith None None) = specSearchTerm (showWith None None)"
proof -
  have h1: "REMOTE_COVER_ENABLED defaultEnv" by code_simp
  have h2: "REMOTE_COVER_PROVIDER defaultEnv \<noteq> ''none''" by code_simp
  have h3: "fst (cacheProbe exampleRuntime defaultEnv (showWith None None) searchWorld) = None"
    by code_simp
  have h4: "directUrlOf (showWith None None) = []" by code_simp
  have h5: "searchTermOf (showWith None None) = ''My Show''" by code_simp
  have h6: "(orEmpty (coverSearchTerm (config (showWith None None))) = [] \<or>
             trim (orEmpty (coverSearchTerm (config (showWith None None)))) \<noteq> []) \<and>
          (orEmpty (coverSearchTerm (config (showWith None None))) \<noteq> [] \<or>
             title (config (showWith None None)) = [] \<or>
             trim (title (config (showWith None None))) \<noteq> [])"
    by code_simp
  have ne: "searchTermOf (showWith None None) \<noteq> []" using h5 by simp
  note t = search_term_choice [OF h1 h2 h3 h4]
  have a: "take 1 (fetchesOf (newEvents searchWorld
       (snd (resolveCoverForSource exampleRuntime defaultEnv (showWith None None) searchWorld)))) =
     [itunesSearchUrl (searchTermOf (showWith None None)) (REMOTE_COVER_COUNTRY defaultEnv)]"
    using t ne by blast
  have b: "searchTermOf (showWith None None) = specSearchTerm (showWith None None)"
    using t h6 by blast
  show ?thesis
    by (rule conjI [OF h1 conjI [OF h2 conjI [OF h3 conjI [OF h4 conjI [OF h5 conjI [OF a b]]]]]])
qed

lemma resolve_direct:
  assumes en: "REMOTE_COVER_ENABLED env" "REMOTE_COVER_PROVIDER env \<noteq> ''none''"
    and miss: "fst (cacheProbe rt env source w) = None"
    and direct: "directUrlOf source \<noteq> []"
  shows "fetchesOf (newEvents w (snd (resolveCoverForSource rt env source w))) = [directUrlOf source] \<and>
         (\<exists>c. fst (resolveCoverForSource rt env source w) = Inr c \<and>
              (c \<noteq> emptyCover \<longrightarrow>
                 (\<exists>buf j. net w (directUrlOf source) = Response True (Some buf) j \<and>
                    files (snd (resolveCoverForSource rt env source w))
                      (baseNoExtOf rt source @ guessExtFromUrl (directUrlOf source)) =
                    Some \<lparr>mtimeMs = now w, isFile = True, content = buf\<rparr>)))"
proof -
  let ?u = "directUrlOf source"
  let ?base = "baseNoExtOf rt source"
  let ?w2 = "w\<lparr>trace := trace w @ probeTrace w ?base coverExts\<rparr>"
  have a: "fst (pickArtwork env source w) = JStr ?u" using direct by (simp add: pickArtwork_direct)
  have eq: "resolveCoverForSource rt env source w = storeArtwork env ?base (dirName source) (JStr ?u) ?w2"
    using resolve_events[OF en miss] a direct by simp
  obtain r w' where st: "storeArtwork env ?base (dirName source) (JStr ?u) ?w2 = (r, w')"
    by (cases "storeArtwork env ?base (dirName source) (JStr ?u) ?w2")
  from storeArtwork_str[OF direct st] obtain c evs where
    s1: "r = Inr c" and s2: "trace w' = trace ?w2 @ evs" and s3: "fetchesOf evs = [?u]" and
    s4: "c = emptyCover \<or>
            (c = hitFor ?base (dirName source) (guessExtFromUrl ?u) \<and>
             (\<exists>buf j. net ?w2 ?u = Response True (Some buf) j \<and>
                files w' (?base @ guessExtFromUrl ?u) = Some \<lparr>mtimeMs = now ?w2, isFile = True, content = buf\<rparr>) \<and>
             (\<forall>e\<in>set coverExts. e \<noteq> guessExtFromUrl ?u \<longrightarrow> files w' (?base @ e) = None))"
    by auto
  have "trace w' = trace w @ (probeTrace w ?base coverExts @ evs)"
    using s2 by simp
  then have "newEvents w w' = probeTrace w ?base coverExts @ evs"
    by (rule newEvents_ext)
  then have f: "fetchesOf (newEvents w w') = [?u]" using s3 by simp
  have g: "c \<noteq> emptyCover \<longrightarrow>
                 (\<exists>buf j. net w ?u = Response True (Some buf) j \<and>
                    files w' (?base @ guessExtFromUrl ?u) = Some \<lparr>mtimeMs = now w, isFile = True, content = buf\<rparr>)"
    using s4 by auto
  show ?thesis unfolding eq st using s1 f g by simp
qed

text \<open>
  C5, as stated, fails: a configured cover URL of one space is treated as absent, and the
  remote search is called.
\<close>
theorem blank_cover_url_counterexample:
  "coverImageUrl (config (showWith (Some '' '') None)) = Some '' '' \<and>
   fetchesOf (trace (snd (resolveCoverForSource exampleRuntime defaultEnv (showWith (Some '' '') None)
     searchWorld))) =
     [''https://itunes.apple.com/search?term=My+Show&entity=podcast&limit=3&country=cn'',
      ''http://img.example/a.jpg'']"
  by code_simp

text \<open>
  C5, amended. If the configured cover URL is non-empty after trimming and there is no
  fresh cached cover, the only request made is the download of the trimmed URL (no search),
  no exception is raised, and a cover that is returned holds the bytes that URL delivered.
\<close>
theorem direct_url_no_search:
  assumes en: "REMOTE_COVER_ENABLED env" "REMOTE_COVER_PROVIDER env \<noteq> ''none''"
    and miss: "fst (cacheProbe rt env source w) = None"
    and direct: "trim (orEmpty (coverImageUrl (config source))) \<noteq> []"
  shows "fetchesOf (newEvents w (snd (resolveCoverForSource rt env source w))) =
           [trim (orEmpty (coverImageUrl (config source)))] \<and>
         (\<exists>c. fst (resolveCoverForSource rt env source w) = Inr c \<and>
              (c \<noteq> emptyCover \<longrightarrow>
                 (\<exists>buf j. net w (trim (orEmpty (coverImageUrl (config source)))) = Response True (Some buf) j \<and>
                    files (snd (resolveCoverForSource rt env source w))
                      (baseNoExtOf rt source @ guessExtFromUrl (trim (orEmpty (coverImageUrl (config source))))) =
                    Some \<lparr>mtimeMs = now w, isFile = True, content = buf\<rparr>)))"
  using resolve_direct [OF en miss] direct by (simp add: directUrlOf_def)

theorem direct_url_no_search_witness:
  "REMOTE_COVER_ENABLED defaultEnv \<and> REMOTE_COVER_PROVIDER defaultEnv \<noteq> ''none'' \<and>
   fst (cacheProbe exampleRuntime defaultEnv (showWith (Some '' http://img.example/c.jpg '') None) coverWorld) = None \<and>
   trim (orEmpty (coverImageUrl (config (showWith (Some '' http://img.example/c.jpg '') None)))) = ''http://img.example/c.jpg'' \<and>
   (fetchesOf (newEvents coverWorld (snd (resolveCoverForSource exampleRuntime defaultEnv (showWith (Some '' http://img.example/c.jpg '') None) coverWorld))) =
           [trim (orEmpty (coverImageUrl (config (showWith (Some '' http://img.example/c.jpg '') None))))] \<and>
         (\<exists>c. fst (resolveCoverForSource exampleRuntime defaultEnv (showWith (Some '' http://img.example/c.jpg '') None) coverWorld) = Inr c \<and>
              (c \<noteq> emptyCover \<longrightarrow>
                 (\<exists>buf j. net coverWorld (trim (orEmpty (coverImageUrl (config (showWith (Some '' http://img.example/c.jpg '') None))))) = Response True (Some buf) j \<and>
                    files (snd (resolveCoverForSource exampleRuntime defaultEnv (showWith (Some '' http://img.example/c.jpg '') None) coverWorld))
                      (baseNoExtOf exampleRuntime (showWith (Some '' http://img.example/c.jpg '') None) @ guessExtFromUrl (trim (orEmpty (coverImageUrl (config (showWith (Some '' http://img.example/c.jpg '') None)))))) =
                    Some \<lparr>mtimeMs = now coverWorld, isFile = True, content = buf\<rparr>))))"
proof -
  have h1: "REMOTE_COVER_ENABLED defaultEnv" by code_simp
  have h2: "REMOTE_COVER_PROVIDER defaultEnv \<noteq> ''none''" by code_simp
  have h3: "fst (cacheProbe exampleRuntime defaultEnv (showWith (Some '' http://img.example/c.jpg '') None) coverWorld) = None"
    by code_simp
  have h5: "trim (orEmpty (coverImageUrl (config (showWith (Some '' http://img.example/c.jpg '') None)))) = ''http://img.example/c.jpg''"
    by code_simp
  then have h4: "trim (orEmpty (coverImageUrl (config (showWith (Some '' http://img.example/c.jpg '') None)))) \<noteq> []" by simp
  show ?thesis
    by (rule conjI [OF h1 conjI [OF h2 conjI [OF h3 conjI [OF h5 direct_url_no_search [OF h1 h2 h3 h4]]]]])
qed

lemma storeArtwork_ok:
  assumes u: "u \<noteq> []"
    and dl: "net w u = Response True (Some buf) j" "\<not> write_fails w (base @ guessExtFromUrl u)"
    and del: "\<forall>e\<in>set coverExts. e \<noteq> guessExtFromUrl u \<and> files w (base @ e) \<noteq> None \<longrightarrow>
                \<not> remove_fails w (base @ e)"
  shows "fst (storeArtwork env base name (JStr u) w) = Inr (hitFor base name (guessExtFromUrl u)) \<and>
         files (snd (storeArtwork env base name (JStr u) w)) (base @ guessExtFromUrl u) =
           Some \<lparr>mtimeMs = now w, isFile = True, content = buf\<rparr> \<and>
         (\<forall>e\<in>set coverExts. e \<noteq> guessExtFromUrl u \<longrightarrow>
            files (snd (storeArtwork env base name (JStr u) w)) (base @ e) = None)"
proof -
  let ?ext = "guessExtFromUrl u"
  let ?p = "base @ ?ext"
  let ?new = "\<lparr>mtimeMs = now w, isFile = True, content = buf\<rparr>"
  obtain r1 w1 where d: "downloadToFile u ?p (REMOTE_COVER_TIMEOUT_MS env) w = (r1, w1)"
    by (cases "downloadToFile u ?p (REMOTE_COVER_TIMEOUT_MS env) w")
  have r1: "r1 = Inr ()" and f1: "files w1 = (files w)(?p \<mapsto> ?new)"
    using d dl by (auto simp: downloadToFile_def fetch_eq writeFile_eq)
  have o1: "sameOracles w w1" using downloadToFile_spec[OF d] by simp
  obtain r2 w2 where c: "cleanupLoop base ?ext coverExts w1 = (r2, w2)"
    by (cases "cleanupLoop base ?ext coverExts w1")
  note cs = cleanupLoop_spec[OF c]
  have "\<forall>e\<in>set coverExts. e \<noteq> ?ext \<and> files w1 (base @ e) \<noteq> None \<longrightarrow> \<not> remove_fails w1 (base @ e)"
  proof (intro ballI impI)
    fix e assume e: "e \<in> set coverExts" and h: "e \<noteq> ?ext \<and> files w1 (base @ e) \<noteq> None"
    then have ne: "base @ e \<noteq> ?p" by simp
    have "files w1 (base @ e) = files w (base @ e)" using f1 ne by simp
    then have "files w (base @ e) \<noteq> None" using h by simp
    then have "\<not> remove_fails w (base @ e)" using del e h by blast
    then show "\<not> remove_fails w1 (base @ e)" using o1 by (simp add: sameOracles_def)
  qed
  then have "\<exists>x. r2 = Inr x" using cs by blast
  then have r2: "r2 = Inr ()" by auto
  have res: "storeArtwork env base name (JStr u) w = (Inr (hitFor base name ?ext), w2)"
    using u d r1 c r2 by (simp add: storeArtwork_def Let_def cleanupOldVariants_def hitFor_def)
  have k1: "files w2 ?p = files w1 ?p" using cs by auto
  have k2: "\<forall>e\<in>set coverExts. e \<noteq> ?ext \<longrightarrow> files w2 (base @ e) = None"
    using cs r2 by blast
  show ?thesis using res k1 k2 f1 by simp
qed

text \<open>
  C1, as stated, fails: at a cache miss the download and the write of \<^verbatim>\<open>show.jpg\<close> succeed, the
  stale \<^verbatim>\<open>show.png\<close> cannot be deleted, and two cached covers of the source exist afterwards.
\<close>

theorem two_variants_remain_counterexample:
  "fst (cacheProbe exampleRuntime defaultEnv
          (showWith (Some ''http://img.example/c.jpg'') None) stuckWorld) = None \<and>
   net stuckWorld ''http://img.example/c.jpg'' = Response True (Some ''JPG'') None \<and>
   \<not> write_fails stuckWorld ''/app/.covers/show.jpg'' \<and>
   files (snd (resolveCoverForSource exampleRuntime defaultEnv
          (showWith (Some ''http://img.example/c.jpg'') None) stuckWorld)) ''/app/.covers/show.jpg'' =
     Some \<lparr>mtimeMs = 8640000000, isFile = True, content = ''JPG''\<rparr> \<and>
   files (snd (resolveCoverForSource exampleRuntime defaultEnv
          (showWith (Some ''http://img.example/c.jpg'') None) stuckWorld)) ''/app/.covers/show.png'' =
     Some staleNode \<and>
   ''/app/.covers/show.jpg'' \<noteq> ''/app/.covers/show.png''"
  by code_simp

text \<open>
  C1, amended. When there is no fresh cached cover, the download and the cache write
  succeed, and every existing file at one of the other two extensions can be deleted, the
  resolver returns route and path of the new file \<open>base @ ext\<close>, that file holds the
  downloaded bytes, and no file is left at the other two extensions: exactly one cached
  cover of the source exists afterwards.
\<close>

theorem download_and_cleanup_leave_one_variant:
  assumes en: "REMOTE_COVER_ENABLED env" "REMOTE_COVER_PROVIDER env \<noteq> ''none''"
    and miss: "fst (cacheProbe rt env source w) = None"
    and pick: "fst (pickArtwork env source w) = JStr u" "u \<noteq> []"
    and dl: "net w u = Response True (Some buf) j"
      "\<not> write_fails w (baseNoExtOf rt source @ guessExtFromUrl u)"
    and del: "\<forall>e\<in>set coverExts.
                e \<noteq> guessExtFromUrl u \<and> files w (baseNoExtOf rt source @ e) \<noteq> None \<longrightarrow>
                \<not> remove_fails w (baseNoExtOf rt source @ e)"
  shows "fst (resolveCoverForSource rt env source w) =
           Inr \<lparr>coverUrl = Some (toCoverRoute (dirName source @ guessExtFromUrl u)),
                 coverCachePath = Some (baseNoExtOf rt source @ guessExtFromUrl u)\<rparr> \<and>
         guessExtFromUrl u \<in> set coverExts \<and>
         files (snd (resolveCoverForSource rt env source w)) (baseNoExtOf rt source @ guessExtFromUrl u) =
           Some \<lparr>mtimeMs = now w, isFile = True, content = buf\<rparr> \<and>
         (\<forall>e\<in>set coverExts. e \<noteq> guessExtFromUrl u \<longrightarrow>
            files (snd (resolveCoverForSource rt env source w)) (baseNoExtOf rt source @ e) = None)"
proof -
  let ?base = "baseNoExtOf rt source"
  let ?w2 = "w\<lparr>trace := trace w @ probeTrace w ?base coverExts @
                (if directUrlOf source = [] \<and> searchTermOf source \<noteq> []
                 then [Fetch (itunesSearchUrl (searchTermOf source) (REMOTE_COVER_COUNTRY env))] else [])\<rparr>"
  have eq: "resolveCoverForSource rt env source w = storeArtwork env ?base (dirName source) (JStr u) ?w2"
    using resolve_events[OF en miss] pick(1) by simp
  have "fst (storeArtwork env ?base (dirName source) (JStr u) ?w2) =
           Inr (hitFor ?base (dirName source) (guessExtFromUrl u)) \<and>
         files (snd (storeArtwork env ?base (dirName source) (JStr u) ?w2)) (?base @ guessExtFromUrl u) =
           Some \<lparr>mtimeMs = now ?w2, isFile = True, content = buf\<rparr> \<and>
         (\<forall>e\<in>set coverExts. e \<noteq> guessExtFromUrl u \<longrightarrow>
            files (snd (storeArtwork env ?base (dirName source) (JStr u) ?w2)) (?base @ e) = None)"
    by (rule storeArtwork_ok) (use pick(2) dl del in simp_all)
  then show ?thesis using eq guessExt_in[of u] by (simp add: hitFor_def)
qed

theorem download_and_cleanup_leave_one_variant_witness:
  "files coverWorld ''/app/.covers/show.png'' \<noteq> None \<and>
   fst (resolveCoverForSource exampleRuntime defaultEnv
          (showWith (Some ''http://img.example/c.jpg'') None) coverWorld) =
     Inr \<lparr>coverUrl = Some (toCoverRoute (dirName (showWith (Some ''http://img.example/c.jpg'') None) @ ''.jpg'')),
           coverCachePath = Some (baseNoExtOf exampleRuntime (showWith (Some ''http://img.example/c.jpg'') None) @ ''.jpg'')\<rparr> \<and>
   files (snd (resolveCoverForSource exampleRuntime defaultEnv
          (showWith (Some ''http://img.example/c.jpg'') None) coverWorld))
       (baseNoExtOf exampleRuntime (showWith (Some ''http://img.example/c.jpg'') None) @ ''.jpg'') =
     Some \<lparr>mtimeMs = now coverWorld, isFile = True, content = ''JPG''\<rparr> \<and>
   files (snd (resolveCoverForSource exampleRuntime defaultEnv
          (showWith (Some ''http://img.example/c.jpg'') None) coverWorld))
       (baseNoExtOf exampleRuntime (showWith (Some ''http://img.example/c.jpg'') None) @ ''.png'') = None \<and>
   files (snd (resolveCoverForSource exampleRuntime defaultEnv
          (showWith (Some ''http://img.example/c.jpg'') None) coverWorld))
       (baseNoExtOf exampleRuntime (showWith (Some ''http://img.example/c.jpg'') None) @ ''.webp'') = None \<and>
   baseNoExtOf exampleRuntime (showWith (Some ''http://img.example/c.jpg'') None) = ''/app/.covers/show''"
proof -
  let ?src = "showWith (Some ''http://img.example/c.jpg'') None"
  let ?u = "''http://img.example/c.jpg''"
  have k1: "files coverWorld ''/app/.covers/show.png'' \<noteq> None" by code_simp
  have h1: "REMOTE_COVER_ENABLED defaultEnv" by code_simp
  have h2: "REMOTE_COVER_PROVIDER defaultEnv \<noteq> ''none''" by code_simp
  have h3: "fst (cacheProbe exampleRuntime defaultEnv ?src coverWorld) = None" by code_simp
  have h4: "fst (pickArtwork defaultEnv ?src coverWorld) = JStr ?u" by code_simp
  have h5: "?u \<noteq> []" by simp
  have h6: "net coverWorld ?u = Response True (Some ''JPG'') None" by code_simp
  have g: "guessExtFromUrl ?u = ''.jpg''" by code_simp
  have b: "baseNoExtOf exampleRuntime ?src = ''/app/.covers/show''" by code_simp
  have h7: "\<not> write_fails coverWorld (baseNoExtOf exampleRuntime ?src @ guessExtFromUrl ?u)"
    by code_simp
  have h8: "\<forall>e\<in>set coverExts.
                e \<noteq> guessExtFromUrl ?u \<and> files coverWorld (baseNoExtOf exampleRuntime ?src @ e) \<noteq> None \<longrightarrow>
                \<not> remove_fails coverWorld (baseNoExtOf exampleRuntime ?src @ e)"
    by code_simp
  note t = download_and_cleanup_leave_one_variant [OF h1 h2 h3 h4 h5 h6 h7 h8, unfolded g]
  have a: "fst (resolveCoverForSource exampleRuntime defaultEnv ?src coverWorld) =
     Inr \<lparr>coverUrl = Some (toCoverRoute (dirName ?src @ ''.jpg'')),
           coverCachePath = Some (baseNoExtOf exampleRuntime ?src @ ''.jpg'')\<rparr>"
    by (rule t [THEN conjunct1])
  have c: "files (snd (resolveCoverForSource exampleRuntime defaultEnv ?src coverWorld))
       (baseNoExtOf exampleRuntime ?src @ ''.jpg'') =
     Some \<lparr>mtimeMs = now coverWorld, isFile = True, content = ''JPG''\<rparr>"
    by (rule t [THEN conjunct2, THEN conjunct2, THEN conjunct1])
  have all: "\<forall>e\<in>set coverExts. e \<noteq> ''.jpg'' \<longrightarrow>
       files (snd (resolveCoverForSource exampleRuntime defaultEnv ?src coverWorld))
         (baseNoExtOf exampleRuntime ?src @ e) = None"
    by (rule t [THEN conjunct2, THEN conjunct2, THEN conjunct2])
  have d: "files (snd (resolveCoverForSource exampleRuntime defaultEnv ?src coverWorld))
       (baseNoExtOf exampleRuntime ?src @ ''.png'') = None"
    using all by (simp add: coverExts_def)
  have e: "files (snd (resolveCoverForSource exampleRuntime defaultEnv ?src coverWorld))
       (baseNoExtOf exampleRuntime ?src @ ''.webp'') = None"
    using all by (simp add: coverExts_def)
  show ?thesis
    by (rule conjI [OF k1 conjI [OF a conjI [OF c conjI [OF d conjI [OF e b]]]]])
qed

lemma storeArtwork_no_raise:
  assumes "truthy a \<longrightarrow> (\<exists>u. a = JStr u)"
  shows "\<exists>c. fst (storeArtwork env base name a w) = Inr c"
proof (cases "truthy a")
  case False
  then show ?thesis by (simp add: storeArtwork_falsy)
next
  case True
  with assms obtain u where u: "a = JStr u" by auto
  show ?thesis
    unfolding u using True u
    by (simp add: storeArtwork_def Let_def split: prod.splits sum.splits)
qed

text \<open>
  The resolver raises in no other way: whenever the artwork value it picked is a string or
  falsy, it returns a result, whatever the file system and the network do.
\<close>

lemma resolve_no_raise_for_string_artwork:
  assumes "truthy (fst (pickArtwork env source w)) \<longrightarrow> (\<exists>u. fst (pickArtwork env source w) = JStr u)"
  shows "\<exists>c. fst (resolveCoverForSource rt env source w) = Inr c"
proof (cases "REMOTE_COVER_ENABLED env \<and> REMOTE_COVER_PROVIDER env \<noteq> ''none''")
  case False
  then show ?thesis by (auto simp: resolveCoverForSource_def)
next
  case True
  then have en: "REMOTE_COVER_ENABLED env" "REMOTE_COVER_PROVIDER env \<noteq> ''none''" by simp_all
  show ?thesis
  proof (cases "fst (cacheProbe rt env source w)")
    case None
    show ?thesis unfolding resolve_events[OF en None] by (rule storeArtwork_no_raise[OF assms])
  next
    case (Some hit)
    then obtain w1 where "cacheProbe rt env source w = (Some hit, w1)"
      by (cases "cacheProbe rt env source w") simp
    then show ?thesis using en by (simp add: resolveCoverForSource_def)
  qed
qed

text \<open>
  C6 fails on the code: when the search answers with an artwork field that is not a string
  (here the number 600), \<^verbatim>\<open>guessExtFromUrl\<close> calls \<^verbatim>\<open>toLowerCase\<close> on it outside the \<^verbatim>\<open>try\<close>
  block, and the resolver raises a TypeError.
\<close>
theorem nonstring_artwork_raises:
  "fst (resolveCoverForSource exampleRuntime defaultEnv (showWith None None) badJsonWorld) = Inl TypeError"
  by code_simp

theorem nonstring_artwork_raises_witness:
  "fst (resolveCoverForSource exampleRuntime defaultEnv (showWith None None) badJsonWorld) \<noteq>
     Inr emptyCover"
  using nonstring_artwork_raises by simp

section \<open>Properties of the show notes\<close>

lemma inlineTextAt_trace [simp]: "inlineTextAt rt (w\<lparr>trace := t\<rparr>) p n = inlineTextAt rt w p n"
  by (simp add: inlineTextAt_def split: option.splits)

lemma sidecarOf_trace [simp]:
  "sidecarOf rt (w\<lparr>trace := t\<rparr>) dp stem bu dn n = sidecarOf rt w dp stem bu dn n"
  by (rule ext) (simp add: sidecarOf_def)

lemma sidecarExists_trace [simp]:
  "sidecarExists rt (w\<lparr>trace := t\<rparr>) dp stem = sidecarExists rt w dp stem"
  by (rule ext) (simp add: sidecarExists_def)

lemma take_min_length: "take (min m (length xs)) xs = take m xs"
  by (simp add: min_def)

lemma take_if_longer: "(if n < length s then take n s else s) = take n s"
  by simp

lemma stat_eq:
  "stat p w =
     (if stat_fails w p then Inl IOError
      else case files w p of None \<Rightarrow> Inl IOError | Some st \<Rightarrow> Inr st,
      w\<lparr>trace := trace w @ [Stat p]\<rparr>)"
  by (simp add: stat_def logEvent_as_upd)

lemma readTextTruncated_eq:
  "files w p \<noteq> None \<Longrightarrow>
   \<exists>evs. readTextTruncated rt p n w = (inlineTextAt rt w p n, w\<lparr>trace := trace w @ evs\<rparr>)"
proof -
  assume ex: "files w p \<noteq> None"
  then obtain st where st: "files w p = Some st" by auto
  show ?thesis
  proof (cases "stat_fails w p")
    case True
    then have "readTextTruncated rt p n w = (inlineTextAt rt w p n, w\<lparr>trace := trace w @ [Stat p]\<rparr>)"
      using st by (simp add: readTextTruncated_def stat_eq inlineTextAt_def)
    then show ?thesis by blast
  next
    case False
    note sf = False
    show ?thesis
    proof (cases "isFile st")
      case False
      then have "readTextTruncated rt p n w = (inlineTextAt rt w p n, w\<lparr>trace := trace w @ [Stat p]\<rparr>)"
        using st sf by (simp add: readTextTruncated_def stat_eq inlineTextAt_def)
      then show ?thesis by blast
    next
      case True
      then have "readTextTruncated rt p n w =
          (inlineTextAt rt w p n, w\<lparr>trace := trace w @ [Stat p, ReadFile p]\<rparr>)"
        using st sf
        by (simp add: readTextTruncated_def stat_eq inlineTextAt_def Let_def logEvent_as_upd
            take_min_length take_if_longer del: take_all_iff)
      then show ?thesis by blast
    qed
  qed
qed

lemma sidecarLoop_eq:
  "\<exists>evs. sidecarLoop rt dp stem bu dn n exts w =
           (map (sidecarOf rt w dp stem bu dn n) (filter (sidecarExists rt w dp stem) exts),
            w\<lparr>trace := trace w @ evs\<rparr>)"
proof (induction exts arbitrary: w)
  case Nil
  have "sidecarLoop rt dp stem bu dn n [] w = ([], w\<lparr>trace := trace w @ []\<rparr>)" by simp
  then show ?case by (metis filter.simps(1) list.map(1))
next
  case (Cons x xs)
  let ?p = "pathJoin rt dp (stem @ ''.'' @ x)"
  show ?case
  proof (cases "files w ?p = None")
    case True
    let ?w1 = "w\<lparr>trace := trace w @ [Exists ?p]\<rparr>"
    from Cons.IH[of ?w1] obtain evs where
      ih: "sidecarLoop rt dp stem bu dn n xs ?w1 =
             (map (sidecarOf rt ?w1 dp stem bu dn n) (filter (sidecarExists rt ?w1 dp stem) xs),
              ?w1\<lparr>trace := trace ?w1 @ evs\<rparr>)" ..
    have "sidecarLoop rt dp stem bu dn n (x # xs) w =
           (map (sidecarOf rt w dp stem bu dn n) (filter (sidecarExists rt w dp stem) (x # xs)),
            w\<lparr>trace := trace w @ (Exists ?p # evs)\<rparr>)"
      using True ih by (simp add: pathExists_eq Let_def sidecarExists_def)
    then show ?thesis ..
  next
    case False
    let ?w1 = "w\<lparr>trace := trace w @ [Exists ?p]\<rparr>"
    show ?thesis
    proof (cases "kindOf x = Text")
      case True
      have "files ?w1 ?p \<noteq> None" using False by simp
      from readTextTruncated_eq[OF this, of rt n] obtain e1 where
        rd: "readTextTruncated rt ?p n ?w1 = (inlineTextAt rt ?w1 ?p n, ?w1\<lparr>trace := trace ?w1 @ e1\<rparr>)" ..
      let ?w2 = "w\<lparr>trace := trace w @ Exists ?p # e1\<rparr>"
      from Cons.IH[of ?w2] obtain evs where
        ih: "sidecarLoop rt dp stem bu dn n xs ?w2 =
             (map (sidecarOf rt ?w2 dp stem bu dn n) (filter (sidecarExists rt ?w2 dp stem) xs),
              ?w2\<lparr>trace := trace ?w2 @ evs\<rparr>)" ..
      have "sidecarLoop rt dp stem bu dn n (x # xs) w =
           (map (sidecarOf rt w dp stem bu dn n) (filter (sidecarExists rt w dp stem) (x # xs)),
            w\<lparr>trace := trace w @ (Exists ?p # e1 @ evs)\<rparr>)"
        using False True rd ih
        by (simp add: pathExists_eq Let_def sidecarExists_def sidecarOf_def)
      then show ?thesis ..
    next
      case nt: False
      from Cons.IH[of ?w1] obtain evs where
        ih: "sidecarLoop rt dp stem bu dn n xs ?w1 =
             (map (sidecarOf rt ?w1 dp stem bu dn n) (filter (sidecarExists rt ?w1 dp stem) xs),
              ?w1\<lparr>trace := trace ?w1 @ evs\<rparr>)" ..
      have "sidecarLoop rt dp stem bu dn n (x # xs) w =
           (map (sidecarOf rt w dp stem bu dn n) (filter (sidecarExists rt w dp stem) (x # xs)),
            w\<lparr>trace := trace w @ (Exists ?p # evs)\<rparr>)"
        using False nt ih by (simp add: pathExists_eq Let_def sidecarExists_def sidecarOf_def)
      then show ?thesis ..
    qed
  qed
qed

lemma findSidecarAttachments_fst:
  "fst (findSidecarAttachments rt dp name bu dn n w) =
     map (sidecarOf rt w dp (stemOf name) bu dn n) (filter (sidecarExists rt w dp (stemOf name)) sidecarExts)"
proof -
  from sidecarLoop_eq[of rt dp "stemOf name" bu dn n sidecarExts w] obtain evs where
    "sidecarLoop rt dp (stemOf name) bu dn n sidecarExts w =
           (map (sidecarOf rt w dp (stemOf name) bu dn n) (filter (sidecarExists rt w dp (stemOf name)) sidecarExts),
            w\<lparr>trace := trace w @ evs\<rparr>)" ..
  then show ?thesis by (simp add: findSidecarAttachments_def)
qed

lemma noteParts_eq:
  "noteParts t =
     (''<p>'' @ attachmentLink t @ ''</p>'') #
     (if trim (orEmpty (inlineText t)) = [] then []
      else [''<pre>'' @ escapeHtml (trim (orEmpty (inlineText t))) @ ''</pre>''])"
  by (simp add: noteParts_def Let_def)

lemma inlineParts_sections: "inlineParts inl atts = imagesSection inl atts @ notesSection inl atts"
proof -
  have n: "map noteParts ts =
        map (\<lambda>t. (''<p>'' @ attachmentLink t @ ''</p>'') #
                              (if trim (orEmpty (inlineText t)) = [] then []
                               else [''<pre>'' @ escapeHtml (trim (orEmpty (inlineText t))) @ ''</pre>''])) ts" for ts
    by (simp add: noteParts_eq)
  show ?thesis
  proof (cases "atts = []")
    case True
    then show ?thesis by (simp add: inlineParts_def imagesSection_def notesSection_def)
  next
    case False
    then show ?thesis
      by (auto simp: inlineParts_def imagesSection_def notesSection_def Let_def n)
  qed
qed

lemma header_not_base: "notesHeader \<notin> set (baseParts rt source ep url sz atts)"
  by (auto simp: baseParts_def notesHeader_def)

lemma header_not_images: "notesHeader \<notin> set (imagesSection inl atts)"
  by (auto simp: imagesSection_def notesHeader_def imagesHeader_def imagePart_def)

lemma header_in_notes:
  "(notesHeader \<in> set (notesSection inl atts)) = (inl = ''all'' \<and> filter (\<lambda>a. attKind a = Text) atts \<noteq> [])"
  by (simp add: notesSection_def)

lemma header_in_parts:
  "(notesHeader \<in> set (htmlParts rt source ep url sz inl atts)) =
     (inl = ''all'' \<and> filter (\<lambda>a. attKind a = Text) atts \<noteq> [])"
  using header_not_base[of rt source ep url sz atts] header_not_images[of inl atts]
  by (simp add: htmlParts_def inlineParts_sections header_in_notes)

lemma text_exts: "filter (\<lambda>e. sidecarExists rt w dp stem e \<and> kindOf e = Text) sidecarExts =
    filter (sidecarExists rt w dp stem) [''txt'', ''md'']"
  by (simp add: sidecarExts_def kindOf_def)

lemma attKind_sidecarOf [simp]: "attKind (sidecarOf rt w dp stem bu dn n e) = kindOf e"
  by (simp add: sidecarOf_def)

lemma texts_of_attachments:
  "filter (\<lambda>a. attKind a = Text) (attachmentsOf rt source ep baseUrl n w) =
     map (sidecarOf rt w (dirPath source) (stemOf (fileName ep)) baseUrl (dirName source) n)
       (filter (sidecarExists rt w (dirPath source) (stemOf (fileName ep))) [''txt'', ''md''])"
  by (simp add: attachmentsOf_def findSidecarAttachments_fst filter_map o_def text_exts)

lemma texts_exist:
  "(filter (\<lambda>a. attKind a = Text) (attachmentsOf rt source ep baseUrl n w) \<noteq> []) =
     (sidecarExists rt w (dirPath source) (stemOf (fileName ep)) ''txt'' \<or>
      sidecarExists rt w (dirPath source) (stemOf (fileName ep)) ''md'')"
  by (simp add: texts_of_attachments)

lemma build_full_html:
  "defaultMode \<noteq> ''title'' \<Longrightarrow>
   html (fst (buildEpisodeShownotes rt source ep url sz baseUrl defaultMode inl n w)) =
     concat (baseParts rt source ep url sz (attachmentsOf rt source ep baseUrl n w) @
             imagesSection inl (attachmentsOf rt source ep baseUrl n w) @
             notesSection inl (attachmentsOf rt source ep baseUrl n w))"
  by (simp add: buildEpisodeShownotes_def attachmentsOf_def htmlParts_def inlineParts_sections
      case_prod_beta)

lemma stem_ep1: "stemOf ''ep1.mp3'' = ''ep1''"
  by code_simp

lemma pre_in_notes:
  assumes "inl = ''all''" "t \<in> set atts" "attKind t = Text" "trim (orEmpty (inlineText t)) \<noteq> []"
  shows "(''<pre>'' @ escapeHtml (trim (orEmpty (inlineText t))) @ ''</pre>'') \<in> set (notesSection inl atts)"
proof -
  have m: "t \<in> set (filter (\<lambda>a. attKind a = Text) atts)" using assms by simp
  then have ne: "filter (\<lambda>a. attKind a = Text) atts \<noteq> []" by (metis empty_iff empty_set)
  have "notesSection inl atts = notesHeader #
           concat (map (\<lambda>t. (''<p>'' @ attachmentLink t @ ''</p>'') #
                              (if trim (orEmpty (inlineText t)) = [] then []
                               else [''<pre>'' @ escapeHtml (trim (orEmpty (inlineText t))) @ ''</pre>'']))
                       (filter (\<lambda>a. attKind a = Text) atts))"
    using assms(1) ne by (simp add: notesSection_def)
  then show ?thesis using m assms(4) by auto
qed

text \<open>
  C8, as stated, fails: the inline text of \<^verbatim>\<open>ep1.md\<close> is \<^verbatim>\<open>Notes & links\<close> with a line feed at
  the end; the page holds a \<^verbatim>\<open><pre>\<close> block of the escaped text without the line feed, and
  no \<^verbatim>\<open><pre>\<close> block of the escaped inline text itself.
\<close>
theorem notes_untrimmed_counterexample:
  "map inlineText (attachmentsOf exampleRuntime (showWith None None) episode1 ''http://host'' 100 notesWorld) =
     [Some (''Notes & links'' @ [CHR 0x0A])] \<and>
   sublist ''<pre>Notes &amp; links</pre>''
     (html (fst (buildEpisodeShownotes exampleRuntime (showWith None None) episode1
        ''http://host/audio/show/ep1.mp3'' (Fin 3) ''http://host'' ''full'' ''all'' 100 notesWorld))) \<and>
   \<not> sublist (''<pre>'' @ escapeHtml (''Notes & links'' @ [CHR 0x0A]) @ ''</pre>'')
     (html (fst (buildEpisodeShownotes exampleRuntime (showWith None None) episode1
        ''http://host/audio/show/ep1.mp3'' (Fin 3) ''http://host'' ''full'' ''all'' 100 notesWorld)))"
  by code_simp

lemma ep1_example:
  assumes f: "fileName ep = ''ep1.mp3''"
    and m: "files w (pathJoin rt (dirPath source) ''ep1.md'') \<noteq> None"
  shows "notesHeader \<in> set (htmlParts rt source ep url sz ''all'' (attachmentsOf rt source ep baseUrl n w)) \<and>
         notesHeader \<notin> set (htmlParts rt source ep url sz ''images'' (attachmentsOf rt source ep baseUrl n w)) \<and>
         (trim (inlineTextAt rt w (pathJoin rt (dirPath source) ''ep1.md'') n) \<noteq> [] \<longrightarrow>
            (''<pre>'' @ escapeHtml (trim (inlineTextAt rt w (pathJoin rt (dirPath source) ''ep1.md'') n)) @ ''</pre>'')
              \<in> set (htmlParts rt source ep url sz ''all'' (attachmentsOf rt source ep baseUrl n w)))"
proof -
  let ?atts = "attachmentsOf rt source ep baseUrl n w"
  let ?md = "sidecarOf rt w (dirPath source) ''ep1'' baseUrl (dirName source) n ''md''"
  have ex: "sidecarExists rt w (dirPath source) (stemOf (fileName ep)) ''md''"
    using m by (simp add: f stem_ep1 sidecarExists_def)
  have ne: "filter (\<lambda>a. attKind a = Text) ?atts \<noteq> []"
    using ex by (simp add: texts_exist)
  have a: "notesHeader \<in> set (htmlParts rt source ep url sz ''all'' ?atts)"
    using ne by (simp add: header_in_parts)
  have b: "notesHeader \<notin> set (htmlParts rt source ep url sz ''images'' ?atts)"
    by (simp add: header_in_parts)
  have "?md \<in> set (filter (\<lambda>a. attKind a = Text) ?atts)"
    using ex by (simp add: texts_of_attachments f stem_ep1)
  then have mem: "?md \<in> set ?atts" "attKind ?md = Text" by simp_all
  have tx: "orEmpty (inlineText ?md) = inlineTextAt rt w (pathJoin rt (dirPath source) ''ep1.md'') n"
    by (simp add: sidecarOf_def kindOf_def orEmpty_def)
  have c: "trim (inlineTextAt rt w (pathJoin rt (dirPath source) ''ep1.md'') n) \<noteq> [] \<longrightarrow>
            (''<pre>'' @ escapeHtml (trim (inlineTextAt rt w (pathJoin rt (dirPath source) ''ep1.md'') n)) @ ''</pre>'')
              \<in> set (htmlParts rt source ep url sz ''all'' ?atts)"
  proof
    assume t: "trim (inlineTextAt rt w (pathJoin rt (dirPath source) ''ep1.md'') n) \<noteq> []"
    have "(''<pre>'' @ escapeHtml (trim (orEmpty (inlineText ?md))) @ ''</pre>'') \<in> set (notesSection ''all'' ?atts)"
      by (rule pre_in_notes) (use mem t tx in simp_all)
    then show "(''<pre>'' @ escapeHtml (trim (inlineTextAt rt w (pathJoin rt (dirPath source) ''ep1.md'') n)) @ ''</pre>'')
              \<in> set (htmlParts rt source ep url sz ''all'' ?atts)"
      by (simp add: htmlParts_def inlineParts_sections tx)
  qed
  show ?thesis using a b c by blast
qed

text \<open>
  C8, amended. In full mode the page is the base list, then the images section, then the
  notes section. The notes header is emitted exactly when the setting is \<^verbatim>\<open>all\<close> and a
  \<^verbatim>\<open>.txt\<close> or \<^verbatim>\<open>.md\<close> sidecar exists; the section holds, for each of them, a link followed by
  a \<^verbatim>\<open><pre>\<close> block of the escaped, trimmed, truncated inline text, the link alone when that
  text is empty after trimming. So for \<^verbatim>\<open>ep1.mp3\<close> with a sidecar \<^verbatim>\<open>ep1.md\<close>, \<^verbatim>\<open>all\<close> gives a
  notes section (with the file's text, if it is not blank) and \<^verbatim>\<open>images\<close> gives none.
\<close>
theorem notes_section_spec:
  assumes full: "defaultMode \<noteq> ''title''"
  shows "html (fst (buildEpisodeShownotes rt source ep url sz baseUrl defaultMode inl n w)) =
           concat (baseParts rt source ep url sz (attachmentsOf rt source ep baseUrl n w) @
                   imagesSection inl (attachmentsOf rt source ep baseUrl n w) @
                   notesSection inl (attachmentsOf rt source ep baseUrl n w)) \<and>
         (notesHeader \<in> set (htmlParts rt source ep url sz inl (attachmentsOf rt source ep baseUrl n w))) =
           (inl = ''all'' \<and>
            (sidecarExists rt w (dirPath source) (stemOf (fileName ep)) ''txt'' \<or>
             sidecarExists rt w (dirPath source) (stemOf (fileName ep)) ''md'')) \<and>
         filter (\<lambda>a. attKind a = Text) (attachmentsOf rt source ep baseUrl n w) =
           map (sidecarOf rt w (dirPath source) (stemOf (fileName ep)) baseUrl (dirName source) n)
             (filter (sidecarExists rt w (dirPath source) (stemOf (fileName ep))) [''txt'', ''md'']) \<and>
         (fileName ep = ''ep1.mp3'' \<and> files w (pathJoin rt (dirPath source) ''ep1.md'') \<noteq> None \<longrightarrow>
            notesHeader \<in> set (htmlParts rt source ep url sz ''all'' (attachmentsOf rt source ep baseUrl n w)) \<and>
            notesHeader \<notin> set (htmlParts rt source ep url sz ''images'' (attachmentsOf rt source ep baseUrl n w)) \<and>
            (trim (inlineTextAt rt w (pathJoin rt (dirPath source) ''ep1.md'') n) \<noteq> [] \<longrightarrow>
               (''<pre>'' @ escapeHtml (trim (inlineTextAt rt w (pathJoin rt (dirPath source) ''ep1.md'') n)) @ ''</pre>'')
                 \<in> set (htmlParts rt source ep url sz ''all'' (attachmentsOf rt source ep baseUrl n w))))"
  using build_full_html [OF full, of rt source ep url sz baseUrl inl n w]
    header_in_parts [of rt source ep url sz inl "attachmentsOf rt source ep baseUrl n w"]
    texts_exist [of rt source ep baseUrl n w]
    texts_of_attachments [of rt source ep baseUrl n w]
    ep1_example [of ep w rt source url sz baseUrl n]
  by simp

theorem notes_section_spec_witness:
  "''full'' \<noteq> ''title'' \<and>
   fileName episode1 = ''ep1.mp3'' \<and>
   files notesWorld (pathJoin exampleRuntime (dirPath (showWith None None)) ''ep1.md'') \<noteq> None \<and>
   trim (inlineTextAt exampleRuntime notesWorld
           (pathJoin exampleRuntime (dirPath (showWith None None)) ''ep1.md'') 100) = ''Notes & links'' \<and>
   notesHeader \<in> set (htmlParts exampleRuntime (showWith None None) episode1
       ''http://host/audio/show/ep1.mp3'' (Fin 3) ''all''
       (attachmentsOf exampleRuntime (showWith None None) episode1 ''http://host'' 100 notesWorld)) \<and>
   notesHeader \<notin> set (htmlParts exampleRuntime (showWith None None) episode1
       ''http://host/audio/show/ep1.mp3'' (Fin 3) ''images''
       (attachmentsOf exampleRuntime (showWith None None) episode1 ''http://host'' 100 notesWorld)) \<and>
   (''<pre>'' @ escapeHtml (trim (inlineTextAt exampleRuntime notesWorld
           (pathJoin exampleRuntime (dirPath (showWith None None)) ''ep1.md'') 100)) @ ''</pre>'')
     \<in> set (htmlParts exampleRuntime (showWith None None) episode1
       ''http://host/audio/show/ep1.mp3'' (Fin 3) ''all''
       (attachmentsOf exampleRuntime (showWith None None) episode1 ''http://host'' 100 notesWorld))"
proof -
  have h0: "''full'' \<noteq> ''title''" by simp
  have h1: "fileName episode1 = ''ep1.mp3''" by code_simp
  have h2: "files notesWorld (pathJoin exampleRuntime (dirPath (showWith None None)) ''ep1.md'') \<noteq> None"
    by code_simp
  have h3: "trim (inlineTextAt exampleRuntime notesWorld
           (pathJoin exampleRuntime (dirPath (showWith None None)) ''ep1.md'') 100) = ''Notes & links''"
    by code_simp
  then have h4: "trim (inlineTextAt exampleRuntime notesWorld
           (pathJoin exampleRuntime (dirPath (showWith None None)) ''ep1.md'') 100) \<noteq> []"
    by simp
  note t = notes_section_spec [OF h0, where rt = exampleRuntime and source = "showWith None None"
      and ep = episode1 and url = "''http://host/audio/show/ep1.mp3''" and sz = "Fin 3"
      and baseUrl = "''http://host''" and inl = "''all''" and n = 100 and w = notesWorld]
  have c: "notesHeader \<in> set (htmlParts exampleRuntime (showWith None None) episode1
       ''http://host/audio/show/ep1.mp3'' (Fin 3) ''all''
       (attachmentsOf exampleRuntime (showWith None None) episode1 ''http://host'' 100 notesWorld)) \<and>
   notesHeader \<notin> set (htmlParts exampleRuntime (showWith None None) episode1
       ''http://host/audio/show/ep1.mp3'' (Fin 3) ''images''
       (attachmentsOf exampleRuntime (showWith None None) episode1 ''http://host'' 100 notesWorld)) \<and>
   (''<pre>'' @ escapeHtml (trim (inlineTextAt exampleRuntime notesWorld
           (pathJoin exampleRuntime (dirPath (showWith None None)) ''ep1.md'') 100)) @ ''</pre>'')
     \<in> set (htmlParts exampleRuntime (showWith None None) episode1
       ''http://host/audio/show/ep1.mp3'' (Fin 3) ''all''
       (attachmentsOf exampleRuntime (showWith None None) episode1 ''http://host'' 100 notesWorld))"
    using t h1 h2 h4 by blast
  show ?thesis
    by (rule conjI [OF h0 conjI [OF h1 conjI [OF h2 conjI [OF h3 c]]]])
qed

lemma build_title:
  "html (fst (buildEpisodeShownotes rt source ep url sz baseUrl ''title'' inl n w)) =
     ''<p>'' @ escapeHtml (epTitle ep) @ ''</p>''"
  by (simp add: buildEpisodeShownotes_def)

lemma build_full_prefix:
  "defaultMode \<noteq> ''title'' \<Longrightarrow>
   prefix (''<p><strong>'' @ escapeHtml (epTitle ep) @ ''</strong></p><ul>'')
     (html (fst (buildEpisodeShownotes rt source ep url sz baseUrl defaultMode inl n w)))"
  by (simp add: build_full_html baseParts_def)

lemma build_nonempty:
  "html (fst (buildEpisodeShownotes rt source ep url sz baseUrl defaultMode inl n w)) \<noteq> []"
proof (cases "defaultMode = ''title''")
  case True
  then show ?thesis by (simp add: build_title)
next
  case False
  from build_full_prefix[OF this, of ep rt source url sz baseUrl inl n w] show ?thesis
    by (auto simp: prefix_def)
qed

lemma feedItem_content:
  "itemContent (fst (feedItem rt env source baseUrl ep w)) =
     html (fst (buildEpisodeShownotes rt source ep
       (baseUrl @ ''/audio/'' @ encodeURIComponent (dirName source) @ ''/'' @ encodeURIComponent (fileName ep))
       (Fin (of_nat (fst (getFileSize (filePath ep) w)))) baseUrl
       (orString (EPISODE_SHOWNOTES env) ''full'') (orString (EPISODE_INLINE_ATTACHMENTS env) ''all'')
       (inlineTextMaxCharsOf env) (snd (getFileSize (filePath ep) w))))"
  using build_nonempty
  by (simp add: feedItem_def Let_def case_prod_beta orString_def)

lemma feedItems_content:
  "\<forall>it\<in>set (fst (feedItems rt env source baseUrl eps w)). itemContent it \<noteq> []"
proof (induction eps arbitrary: w)
  case Nil
  then show ?case by simp
next
  case (Cons ep eps)
  have "itemContent (fst (feedItem rt env source baseUrl ep w)) \<noteq> []"
    by (simp add: feedItem_content build_nonempty)
  then show ?case using Cons.IH[of "snd (feedItem rt env source baseUrl ep w)"]
    by (simp add: case_prod_beta)
qed

text \<open>
  C10. In every mode the page returned by \<^verbatim>\<open>buildEpisodeShownotes\<close> is non-empty: in title
  mode it is the paragraph with the escaped title, otherwise it starts with the title
  paragraph and the opening of the list. The content \<^verbatim>\<open>generateFeed\<close> hands to the feed is
  therefore this page, never the fallback.
\<close>
theorem shownotes_html_nonempty:
  "html (fst (buildEpisodeShownotes rt source ep url sz baseUrl defaultMode inl n w)) \<noteq> [] \<and>
   (defaultMode = ''title'' \<longrightarrow>
      html (fst (buildEpisodeShownotes rt source ep url sz baseUrl defaultMode inl n w)) =
        ''<p>'' @ escapeHtml (epTitle ep) @ ''</p>'') \<and>
   (defaultMode \<noteq> ''title'' \<longrightarrow>
      prefix (''<p><strong>'' @ escapeHtml (epTitle ep) @ ''</strong></p><ul>'')
        (html (fst (buildEpisodeShownotes rt source ep url sz baseUrl defaultMode inl n w)))) \<and>
   itemContent (fst (feedItem rt env source baseUrl ep w)) =
     html (fst (buildEpisodeShownotes rt source ep
       (baseUrl @ ''/audio/'' @ encodeURIComponent (dirName source) @ ''/'' @ encodeURIComponent (fileName ep))
       (Fin (of_nat (fst (getFileSize (filePath ep) w)))) baseUrl
       (orString (EPISODE_SHOWNOTES env) ''full'') (orString (EPISODE_INLINE_ATTACHMENTS env) ''all'')
       (inlineTextMaxCharsOf env) (snd (getFileSize (filePath ep) w)))) \<and>
   (\<forall>it\<in>set (fst (generateFeedItems rt env source baseUrl w)). itemContent it \<noteq> [])"
  using build_nonempty [of rt source ep url sz baseUrl defaultMode inl n w]
    build_title [of rt source ep url sz baseUrl inl n w]
    build_full_prefix [of defaultMode ep rt source url sz baseUrl inl n w]
    feedItem_content [of rt env source baseUrl ep w]
    feedItems_content [of rt env source baseUrl "episodes source" w]
  by (simp add: generateFeedItems_def)

theorem shownotes_html_nonempty_witness:
  "html (fst (buildEpisodeShownotes exampleRuntime (showWith None None) episode1
      ''http://host/audio/show/ep1.mp3'' (Fin 3) ''http://host'' ''title'' ''all'' 100 notesWorld)) \<noteq> [] \<and>
   html (fst (buildEpisodeShownotes exampleRuntime (showWith None None) episode1
      ''http://host/audio/show/ep1.mp3'' (Fin 3) ''http://host'' ''title'' ''all'' 100 notesWorld)) =
     ''<p>'' @ escapeHtml (epTitle episode1) @ ''</p>'' \<and>
   escapeHtml (epTitle episode1) = ''Episode 1'' \<and>
   itemContent (fst (feedItem exampleRuntime smallEnv (showWith None None) ''http://host'' episode1 notesWorld)) =
     html (fst (buildEpisodeShownotes exampleRuntime (showWith None None) episode1
       (''http://host'' @ ''/audio/'' @ encodeURIComponent (dirName (showWith None None)) @ ''/'' @
        encodeURIComponent (fileName episode1))
       (Fin (of_nat (fst (getFileSize (filePath episode1) notesWorld)))) ''http://host''
       (orString (EPISODE_SHOWNOTES smallEnv) ''full'') (orString (EPISODE_INLINE_ATTACHMENTS smallEnv) ''all'')
       (inlineTextMaxCharsOf smallEnv) (snd (getFileSize (filePath episode1) notesWorld))))"
proof -
  note t = shownotes_html_nonempty [where rt = exampleRuntime and source = "showWith None None"
      and ep = episode1 and url = "''http://host/audio/show/ep1.mp3''" and sz = "Fin 3"
      and baseUrl = "''http://host''" and defaultMode = "''title''" and inl = "''all''" and n = 100
      and w = notesWorld and env = smallEnv]
  have e: "escapeHtml (epTitle episode1) = ''Episode 1''" by code_simp
  have a: "html (fst (buildEpisodeShownotes exampleRuntime (showWith None None) episode1
      ''http://host/audio/show/ep1.mp3'' (Fin 3) ''http://host'' ''title'' ''all'' 100 notesWorld)) \<noteq> []"
    using t by blast
  have b: "html (fst (buildEpisodeShownotes exampleRuntime (showWith None None) episode1
      ''http://host/audio/show/ep1.mp3'' (Fin 3) ''http://host'' ''title'' ''all'' 100 notesWorld)) =
     ''<p>'' @ escapeHtml (epTitle episode1) @ ''</p>''"
    using t by blast
  have c: "itemContent (fst (feedItem exampleRuntime smallEnv (showWith None None) ''http://host'' episode1 notesWorld)) =
     html (fst (buildEpisodeShownotes exampleRuntime (showWith None None) episode1
       (''http://host'' @ ''/audio/'' @ encodeURIComponent (dirName (showWith None None)) @ ''/'' @
        encodeURIComponent (fileName episode1))
       (Fin (of_nat (fst (getFileSize (filePath episode1) notesWorld)))) ''http://host''
       (orString (EPISODE_SHOWNOTES smallEnv) ''full'') (orString (EPISODE_INLINE_ATTACHMENTS smallEnv) ''all'')
       (inlineTextMaxCharsOf smallEnv) (snd (getFileSize (filePath episode1) notesWorld))))"
    using t by blast
  show ?thesis
    by (rule conjI [OF a conjI [OF b conjI [OF e c]]])
qed

end
